theory Spec2Isabelle
  imports Main "HOL-Library.Sublist"
begin

section \<open>Shared vocabulary: the logger and thrown values\<close>

text \<open>
  Every file of the repository writes through \<^verbatim>\<open>log(message, LogType)\<close> of the
  imported logging package, with a \<^verbatim>\<open>ConsoleLogger\<close> installed. The console is
  the only output of the demonstrations, so it is modelled as the list of lines written
  so far; \<open>log\<close> appends one line and never throws.
\<close>

datatype LogType = INFO | DEBUG | ERROR

type_synonym console = "(LogType \<times> string) list"

definition log :: "string \<Rightarrow> LogType \<Rightarrow> console \<Rightarrow> console" where
  "log msg ty out = out @ [(ty, msg)]"

text \<open>
  A thrown JavaScript error is kept as its class name and its message:
  \<^verbatim>\<open>new Error('boom')\<close> is \<open>JsError ''Error'' ''boom''\<close>, a typed error of the
  specification such as \<^verbatim>\<open>CommandFailed\<close> would be \<open>JsError ''CommandFailed'' m\<close>.
\<close>

datatype js_error = JsError (err_name: string) (err_message: string)

text \<open>
  A call either returns or throws. Mutations made before a \<^verbatim>\<open>throw\<close> stay in
  place, so both outcomes carry the state the call leaves behind.
\<close>

datatype 's outcome = Returns 's | Throws js_error 's

fun final :: "'s outcome \<Rightarrow> 's" where
  "final (Returns s) = s"
| "final (Throws e s) = s"

fun thrown :: "'s outcome \<Rightarrow> js_error option" where
  "thrown (Returns s) = None"
| "thrown (Throws e s) = Some e"

fun lift_state :: "('s \<Rightarrow> 't) \<Rightarrow> 's outcome \<Rightarrow> 't outcome" where
  "lift_state f (Returns s) = Returns (f s)"
| "lift_state f (Throws e s) = Throws e (f s)"

section \<open>Command pattern: \<^verbatim>\<open>design-patterns/behavioral/command.ts\<close>\<close>

text \<open>
  \<^verbatim>\<open>interface Command { execute(): void; undo(): void; }\<close> is open: any object
  with the two methods is a command. A command is therefore the pair of its two actions.
  An action writes to the console and may throw; it holds no reference to the invoker
  (neither class of the source does).
\<close>

record command =
  execute :: "console \<Rightarrow> console outcome"
  undo :: "console \<Rightarrow> console outcome"

definition Receiver_doSomething :: "string \<Rightarrow> console \<Rightarrow> console" where
  "Receiver_doSomething a out = log (''Receiver: Working on ('' @ a @ '')'') INFO out"

definition Receiver_doSomethingElse :: "string \<Rightarrow> console \<Rightarrow> console" where
  "Receiver_doSomethingElse b out = log (''Receiver: Also working on ('' @ b @ '')'') INFO out"

definition Receiver_undoSomething :: "string \<Rightarrow> console \<Rightarrow> console" where
  "Receiver_undoSomething a out = log (''Receiver: Undoing action on ('' @ a @ '')'') INFO out"

definition Receiver_undoSomethingElse :: "string \<Rightarrow> console \<Rightarrow> console" where
  "Receiver_undoSomethingElse b out =
     log (''Receiver: Undoing another action on ('' @ b @ '')'') INFO out"

definition SimpleCommand :: "string \<Rightarrow> command" where
  "SimpleCommand payload =
     \<lparr> execute = (\<lambda>out. Returns (log
         (''SimpleCommand: See, I can do simple things like printing ('' @ payload @ '')'')
         INFO out)),
       undo = (\<lambda>out. Returns (log
         (''SimpleCommand: Undoing action with payload ('' @ payload @ '')'') INFO out)) \<rparr>"

text \<open>The \<^verbatim>\<open>Receiver\<close> has no fields, so the command only keeps \<open>a\<close> and \<open>b\<close>.\<close>

definition ComplexCommand :: "string \<Rightarrow> string \<Rightarrow> command" where
  "ComplexCommand a b =
     \<lparr> execute = (\<lambda>out. Returns (Receiver_doSomethingElse b (Receiver_doSomething a
         (log ''ComplexCommand: Complex stuff should be done by a receiver object.'' INFO out)))),
       undo = (\<lambda>out. Returns (Receiver_undoSomethingElse b (Receiver_undoSomething a
         (log ''ComplexCommand: Undoing complex stuff.'' INFO out)))) \<rparr>"

text \<open>
  The \<^verbatim>\<open>Invoker\<close>: two optional command slots and the history array.
  \<^verbatim>\<open>push\<close> appends, \<^verbatim>\<open>pop\<close> removes the last element, so the top of the
  stack is the last element of the list.
\<close>

record invoker =
  onStart :: "command option"
  onFinish :: "command option"
  history :: "command list"

definition Invoker_new :: invoker where
  "Invoker_new = \<lparr> onStart = None, onFinish = None, history = [] \<rparr>"

definition setOnStart :: "command \<Rightarrow> invoker \<Rightarrow> invoker" where
  "setOnStart c ivk = ivk\<lparr>onStart := Some c\<rparr>"

definition setOnFinish :: "command \<Rightarrow> invoker \<Rightarrow> invoker" where
  "setOnFinish c ivk = ivk\<lparr>onFinish := Some c\<rparr>"

text \<open>
  \<^verbatim>\<open>doSomethingImportant\<close>: each slot that is set is executed and then pushed. A
  throw inside \<^verbatim>\<open>execute\<close> leaves the method before the \<^verbatim>\<open>push\<close> that
  follows it, and nothing catches it.
\<close>

definition doSomethingImportant :: "invoker \<Rightarrow> console \<Rightarrow> (invoker \<times> console) outcome" where
  "doSomethingImportant ivk out0 =
     (let out1 = log ''Invoker: Does anybody want something done before I begin?'' INFO out0 in
      case (case onStart ivk of
              None \<Rightarrow> Returns (ivk, out1)
            | Some c \<Rightarrow>
                (case execute c out1 of
                   Throws e out \<Rightarrow> Throws e (ivk, out)
                 | Returns out \<Rightarrow> Returns (ivk\<lparr>history := history ivk @ [c]\<rparr>, out))) of
        Throws e s \<Rightarrow> Throws e s
      | Returns (ivk1, out2) \<Rightarrow>
          (let out3 = log ''Invoker: ...doing something really important...'' INFO out2;
               out4 = log ''Invoker: Does anybody want something done after I finish?'' INFO out3 in
           case onFinish ivk1 of
             None \<Rightarrow> Returns (ivk1, out4)
           | Some c \<Rightarrow>
               (case execute c out4 of
                  Throws e out \<Rightarrow> Throws e (ivk1, out)
                | Returns out \<Rightarrow> Returns (ivk1\<lparr>history := history ivk1 @ [c]\<rparr>, out))))"

text \<open>
  \<^verbatim>\<open>undo\<close>: \<^verbatim>\<open>pop()\<close> on an empty array returns \<^verbatim>\<open>undefined\<close> and
  leaves the array alone; the \<^verbatim>\<open>else\<close> branch then logs and returns. Every
  element of the history is an object, hence truthy. The pop happens before the
  command's \<^verbatim>\<open>undo()\<close> is called, so it stays popped if that call throws.
\<close>

definition Invoker_undo :: "invoker \<Rightarrow> console \<Rightarrow> (invoker \<times> console) outcome" where
  "Invoker_undo ivk out =
     (case history ivk of
        [] \<Rightarrow> Returns (ivk, log ''Invoker: No commands to undo'' INFO out)
      | _ # _ \<Rightarrow>
          (let c = last (history ivk);
               ivk' = ivk\<lparr>history := butlast (history ivk)\<rparr> in
           lift_state (\<lambda>out'. (ivk', out'))
             (undo c (log ''Invoker: Undoing last command'' INFO out))))"

text \<open>The commands and invokers used as concrete inputs below.\<close>

definition failing_command :: command where
  "failing_command =
     \<lparr> execute = (\<lambda>out. Throws (JsError ''Error'' ''boom'') out),
       undo = (\<lambda>out. Returns out) \<rparr>"

definition demo_invoker :: invoker where
  "demo_invoker =
     setOnFinish (ComplexCommand ''Send email'' ''Save report'')
       (setOnStart (SimpleCommand ''Say Hi!'') Invoker_new)"

section \<open>Observer pattern: \<^verbatim>\<open>ConcreteSubject\<close> in \<^verbatim>\<open>design-patterns/structural/flyweight.ts\<close>\<close>

text \<open>
  Observers are compared by identity (\<^verbatim>\<open>includes\<close>, \<^verbatim>\<open>indexOf\<close>), so the
  subject's array holds references. What a referenced observer does on
  \<^verbatim>\<open>update(subject)\<close> is looked up in a table of the observer objects.
\<close>

type_synonym ref = nat

text \<open>\<^verbatim>\<open>state: number\<close> has no initialiser: it is \<^verbatim>\<open>undefined\<close> until
  \<^verbatim>\<open>someBusinessLogic\<close> has run.\<close>

record subject =
  subject_state :: "int option"
  observers :: "ref list"

text \<open>
  \<^verbatim>\<open>interface Observer\<close> is open, and \<^verbatim>\<open>notify\<close> hands every observer the
  subject itself, whose \<^verbatim>\<open>attach\<close>, \<^verbatim>\<open>detach\<close> and \<^verbatim>\<open>state\<close> are public.
  An \<^verbatim>\<open>update\<close> is therefore modelled by what it leaves behind when it ends: it
  returns or throws, with the subject and the console as it changed them; \<open>None\<close> is
  an update that never ends.
\<close>

record observer =
  update :: "subject \<times> console \<Rightarrow> (subject \<times> console) outcome option"

type_synonym observer_table = "ref \<Rightarrow> observer"

definition ConcreteSubject_new :: subject where
  "ConcreteSubject_new = \<lparr> subject_state = None, observers = [] \<rparr>"

text \<open>A comparison with \<^verbatim>\<open>undefined\<close> is false, whichever it is.\<close>

definition ConcreteObserverA :: observer where
  "ConcreteObserverA =
     \<lparr> update = (\<lambda>(s, out).
         if (case subject_state s of None \<Rightarrow> False | Some n \<Rightarrow> n < 5)
         then Some (Returns (s, log ''ConcreteObserverA: Reacted to the event.'' INFO out))
         else Some (Returns (s, out))) \<rparr>"

definition ConcreteObserverB :: observer where
  "ConcreteObserverB =
     \<lparr> update = (\<lambda>(s, out).
         if (case subject_state s of None \<Rightarrow> False | Some n \<Rightarrow> n = 0 \<or> n \<ge> 2)
         then Some (Returns (s, log ''ConcreteObserverB: Reacted to the event.'' INFO out))
         else Some (Returns (s, out))) \<rparr>"

definition attach :: "ref \<Rightarrow> subject \<times> console \<Rightarrow> subject \<times> console" where
  "attach ob = (\<lambda>(s, out).
     if ob \<in> set (observers s)
     then (s, log ''Subject: Observer has been attached already.'' DEBUG out)
     else (s\<lparr>observers := observers s @ [ob]\<rparr>, log ''Subject: Attached an observer.'' INFO out))"

text \<open>\<^verbatim>\<open>splice(indexOf(observer), 1)\<close> removes the first occurrence: \<open>remove1\<close>.\<close>

definition detach :: "ref \<Rightarrow> subject \<times> console \<Rightarrow> subject \<times> console" where
  "detach ob = (\<lambda>(s, out).
     if ob \<notin> set (observers s)
     then (s, log ''Subject: Nonexistent observer.'' ERROR out)
     else (s\<lparr>observers := remove1 ob (observers s)\<rparr>, log ''Subject: Detached an observer.'' INFO out))"

text \<open>
  The \<^verbatim>\<open>for ... of\<close> loop of \<^verbatim>\<open>notify\<close> walks the live array: the array
  iterator keeps an index \<open>i\<close>, and each round compares it with the length the array
  has then and reads the element the array has then at \<open>i\<close>. An update that detaches
  or attaches changes what the following rounds see. There is no \<^verbatim>\<open>try\<close> around
  \<^verbatim>\<open>observer.update(this)\<close>: a throw leaves the loop and the method.

  Updates that keep attaching can keep the loop going for ever, so the loop takes
  fuel, one unit per round; \<open>None\<close> is a notification that has not ended within the
  fuel, or in which an update never ends. The second component of the state is a ghost
  variable, the observers whose \<^verbatim>\<open>update\<close> has been called so far, in call order.
\<close>

fun notify_loop ::
  "nat \<Rightarrow> observer_table \<Rightarrow> nat \<Rightarrow> subject \<times> ref list \<times> console
     \<Rightarrow> (subject \<times> ref list \<times> console) outcome option"
where
  "notify_loop 0 tbl i st = None"
| "notify_loop (Suc fuel) tbl i (s, called, out) =
     (if i < length (observers s)
      then (case update (tbl (observers s ! i)) (s, out) of
              None \<Rightarrow> None
            | Some (Throws e (s', out')) \<Rightarrow> Some (Throws e (s', called @ [observers s ! i], out'))
            | Some (Returns (s', out')) \<Rightarrow>
                notify_loop fuel tbl (Suc i) (s', called @ [observers s ! i], out'))
      else Some (Returns (s, called, out)))"

definition notify ::
  "nat \<Rightarrow> observer_table \<Rightarrow> subject \<Rightarrow> console
     \<Rightarrow> (subject \<times> ref list \<times> console) outcome option"
where
  "notify fuel tbl s out =
     notify_loop fuel tbl 0 (s, [], log ''Subject: Notifying observers...'' INFO out)"

text \<open>The ghost list of a notification: the observers it called, in call order.\<close>

definition called_by :: "(subject \<times> ref list \<times> console) outcome \<Rightarrow> ref list" where
  "called_by r = fst (snd (final r))"

text \<open>
  Two properties an observer may have. Both classes of the source have both: their
  updates only read \<^verbatim>\<open>subject.state\<close> and log.
\<close>

definition leaves_array_alone :: "observer \<Rightarrow> bool" where
  "leaves_array_alone ob =
     (\<forall>s out r. update ob (s, out) = Some r \<longrightarrow> observers (fst (final r)) = observers s)"

definition finishes :: "observer \<Rightarrow> bool" where
  "finishes ob = (\<forall>st. update ob st \<noteq> None)"

text \<open>
  Two more: an update that returns normally whatever it is given, as the updates of
  both classes of the source do, and one that throws \<open>e\<close> whatever it is given.
\<close>

definition returns_always :: "observer \<Rightarrow> bool" where
  "returns_always ob = (\<forall>st. \<exists>st'. update ob st = Some (Returns st'))"

definition throws_always :: "observer \<Rightarrow> js_error \<Rightarrow> bool" where
  "throws_always ob e = (\<forall>st. \<exists>st'. update ob st = Some (Throws e st'))"





text \<open>
  Concrete observers. Object 0 is an observer whose \<^verbatim>\<open>update\<close> throws; object 1
  is a \<^verbatim>\<open>ConcreteObserverA\<close>; the update of object 3 calls
  \<^verbatim>\<open>subject.detach(this)\<close>; the update of object 4 calls
  \<^verbatim>\<open>subject.detach(this)\<close> and then \<^verbatim>\<open>subject.attach(this)\<close>; every other
  object is a \<^verbatim>\<open>ConcreteObserverB\<close>.
\<close>

definition failing_observer :: observer where
  "failing_observer =
     \<lparr> update = (\<lambda>st. Some (Throws (JsError ''Error'' ''listener failed'') st)) \<rparr>"

definition detaching_observer :: "ref \<Rightarrow> observer" where
  "detaching_observer self = \<lparr> update = (\<lambda>st. Some (Returns (detach self st))) \<rparr>"

definition reattaching_observer :: "ref \<Rightarrow> observer" where
  "reattaching_observer self =
     \<lparr> update = (\<lambda>st. Some (Returns (attach self (detach self st)))) \<rparr>"

definition demo_observers :: observer_table where
  "demo_observers r =
     (if r = 0 then failing_observer
      else if r = 1 then ConcreteObserverA
      else if r = 3 then detaching_observer 3
      else if r = 4 then reattaching_observer 4
      else ConcreteObserverB)"

section \<open>State pattern: \<^verbatim>\<open>design-patterns/behavioral/state.ts\<close>\<close>

text \<open>
  A context and its state object refer to each other, and a state object can be handed
  to several contexts, so the objects live in a store and fields hold references. A
  reference that names no object of the store stands for \<^verbatim>\<open>undefined\<close>: using it
  throws a \<^verbatim>\<open>TypeError\<close>, as JavaScript does when a property of \<^verbatim>\<open>undefined\<close>
  is read.
\<close>

definition TypeError :: js_error where
  "TypeError = JsError ''TypeError'' ''Cannot read properties of undefined''"

subsection \<open>\<^verbatim>\<open>Context\<close> and \<^verbatim>\<open>State\<close>\<close>

datatype state_class = ConcreteStateA | ConcreteStateB

fun state_class_name :: "state_class \<Rightarrow> string" where
  "state_class_name ConcreteStateA = ''ConcreteStateA''"
| "state_class_name ConcreteStateB = ''ConcreteStateB''"

text \<open>A \<^verbatim>\<open>State\<close> object: its class and the field \<^verbatim>\<open>context\<close> (here \<open>state_context\<close>), unset until
  \<^verbatim>\<open>setContext\<close> is called.\<close>

record state_obj =
  class_of_state :: state_class
  state_context :: "ref option"

text \<open>
  The store: \<open>contexts c\<close> is the field \<^verbatim>\<open>state\<close> of the \<^verbatim>\<open>Context\<close> object
  \<open>c\<close>, \<open>states\<close> holds the \<^verbatim>\<open>State\<close> objects, \<open>next_ref\<close> is the next unused
  address.
\<close>

record context_store =
  contexts :: "ref \<rightharpoonup> ref"
  states :: "ref \<rightharpoonup> state_obj"
  next_ref :: ref
  ctx_console :: console

definition empty_context_store :: context_store where
  "empty_context_store =
     \<lparr> contexts = Map.empty, states = Map.empty, next_ref = 0, ctx_console = [] \<rparr>"

text \<open>\<^verbatim>\<open>new ConcreteStateA()\<close>, \<^verbatim>\<open>new ConcreteStateB()\<close>: a new object, its
  \<^verbatim>\<open>context\<close> unset.\<close>

definition new_State :: "state_class \<Rightarrow> context_store \<Rightarrow> ref \<times> context_store" where
  "new_State k \<sigma> =
     (next_ref \<sigma>,
      \<sigma>\<lparr> states := (states \<sigma>)(next_ref \<sigma> \<mapsto> \<lparr> class_of_state = k, state_context = None \<rparr>),
         next_ref := Suc (next_ref \<sigma>) \<rparr>)"

text \<open>
  \<^verbatim>\<open>transitionTo(state)\<close>: the log line reads \<^verbatim>\<open>state.constructor.name\<close>, then
  \<^verbatim>\<open>this.state = state\<close> and \<^verbatim>\<open>this.state.setContext(this)\<close>.
\<close>

definition transitionTo :: "ref \<Rightarrow> ref \<Rightarrow> context_store \<Rightarrow> context_store outcome" where
  "transitionTo c s \<sigma> =
     (case states \<sigma> s of
        None \<Rightarrow> Throws TypeError \<sigma>
      | Some ob \<Rightarrow>
          Returns (\<sigma>\<lparr> contexts := (contexts \<sigma>)(c \<mapsto> s),
                      states := (states \<sigma>)(s \<mapsto> ob\<lparr>state_context := Some c\<rparr>),
                      ctx_console :=
                        log (''Context: Transitioning to '' @ state_class_name (class_of_state ob)
                             @ ''.'') INFO (ctx_console \<sigma>) \<rparr>))"

text \<open>\<^verbatim>\<open>new Context(state)\<close>: the constructor only calls \<^verbatim>\<open>transitionTo\<close>. The
  result is the new context's reference and the store.\<close>

definition Context_new :: "ref \<Rightarrow> context_store \<Rightarrow> (ref \<times> context_store) outcome" where
  "Context_new s \<sigma> =
     lift_state (\<lambda>\<sigma>'. (next_ref \<sigma>, \<sigma>'))
       (transitionTo (next_ref \<sigma>) s (\<sigma>\<lparr>next_ref := Suc (next_ref \<sigma>)\<rparr>))"

text \<open>
  The handlers of the two concrete states. \<^verbatim>\<open>this.context.transitionTo(...)\<close>
  reads the back reference before the argument is evaluated.
\<close>

definition handle1 :: "ref \<Rightarrow> context_store \<Rightarrow> context_store outcome" where
  "handle1 s \<sigma> =
     (case states \<sigma> s of
        None \<Rightarrow> Throws TypeError \<sigma>
      | Some ob \<Rightarrow>
          (case class_of_state ob of
             ConcreteStateA \<Rightarrow>
               (let \<sigma>1 = \<sigma>\<lparr>ctx_console :=
                      log ''ConcreteStateA wants to change the state of the context.'' INFO
                        (log ''ConcreteStateA handles request1.'' INFO (ctx_console \<sigma>))\<rparr> in
                case state_context ob of
                  None \<Rightarrow> Throws TypeError \<sigma>1
                | Some c \<Rightarrow>
                    (case new_State ConcreteStateB \<sigma>1 of (b, \<sigma>2) \<Rightarrow> transitionTo c b \<sigma>2))
           | ConcreteStateB \<Rightarrow>
               Returns (\<sigma>\<lparr>ctx_console :=
                 log ''ConcreteStateB handles request1.'' INFO (ctx_console \<sigma>)\<rparr>)))"

definition handle2 :: "ref \<Rightarrow> context_store \<Rightarrow> context_store outcome" where
  "handle2 s \<sigma> =
     (case states \<sigma> s of
        None \<Rightarrow> Throws TypeError \<sigma>
      | Some ob \<Rightarrow>
          (case class_of_state ob of
             ConcreteStateA \<Rightarrow>
               Returns (\<sigma>\<lparr>ctx_console :=
                 log ''ConcreteStateA handles request2.'' INFO (ctx_console \<sigma>)\<rparr>)
           | ConcreteStateB \<Rightarrow>
               (let \<sigma>1 = \<sigma>\<lparr>ctx_console :=
                      log ''ConcreteStateB wants to change the state of the context.'' INFO
                        (log ''ConcreteStateB handles request2.'' INFO (ctx_console \<sigma>))\<rparr> in
                case state_context ob of
                  None \<Rightarrow> Throws TypeError \<sigma>1
                | Some c \<Rightarrow>
                    (case new_State ConcreteStateA \<sigma>1 of (a, \<sigma>2) \<Rightarrow> transitionTo c a \<sigma>2))))"

text \<open>\<^verbatim>\<open>request1\<close>, \<^verbatim>\<open>request2\<close>: the context delegates to its current state.\<close>

definition request1 :: "ref \<Rightarrow> context_store \<Rightarrow> context_store outcome" where
  "request1 c \<sigma> =
     (case contexts \<sigma> c of None \<Rightarrow> Throws TypeError \<sigma> | Some s \<Rightarrow> handle1 s \<sigma>)"

definition request2 :: "ref \<Rightarrow> context_store \<Rightarrow> context_store outcome" where
  "request2 c \<sigma> =
     (case contexts \<sigma> c of None \<Rightarrow> Throws TypeError \<sigma> | Some s \<Rightarrow> handle2 s \<sigma>)"

text \<open>
  The invariant of the claim: the object installed as the current state of \<open>c\<close> exists
  and its \<^verbatim>\<open>context\<close> field refers to \<open>c\<close>. \<open>current_class\<close> reads the class of the
  current state.
\<close>

definition backref_ok :: "context_store \<Rightarrow> ref \<Rightarrow> bool" where
  "backref_ok \<sigma> c =
     (case contexts \<sigma> c of
        None \<Rightarrow> False
      | Some s \<Rightarrow> (case states \<sigma> s of None \<Rightarrow> False | Some ob \<Rightarrow> state_context ob = Some c))"

definition current_class :: "context_store \<Rightarrow> ref \<Rightarrow> state_class option" where
  "current_class \<sigma> c =
     (case contexts \<sigma> c of
        None \<Rightarrow> None
      | Some s \<Rightarrow> map_option class_of_state (states \<sigma> s))"

subsection \<open>\<^verbatim>\<open>Document\<close> and \<^verbatim>\<open>DocumentState\<close>\<close>

datatype doc_state_class = DraftState | ModerationState | PublishedState

fun doc_state_class_name :: "doc_state_class \<Rightarrow> string" where
  "doc_state_class_name DraftState = ''DraftState''"
| "doc_state_class_name ModerationState = ''ModerationState''"
| "doc_state_class_name PublishedState = ''PublishedState''"

record doc_state_obj =
  class_of_doc_state :: doc_state_class
  document :: "ref option"

record document_obj =
  doc_name :: string
  doc_state :: ref

record document_store =
  documents :: "ref \<rightharpoonup> document_obj"
  doc_states :: "ref \<rightharpoonup> doc_state_obj"
  doc_next_ref :: ref
  doc_console :: console

definition empty_document_store :: document_store where
  "empty_document_store =
     \<lparr> documents = Map.empty, doc_states = Map.empty, doc_next_ref = 0, doc_console = [] \<rparr>"

definition doc_log :: "string \<Rightarrow> document_store \<Rightarrow> document_store" where
  "doc_log msg \<sigma> = \<sigma>\<lparr>doc_console := log msg INFO (doc_console \<sigma>)\<rparr>"

text \<open>The prefix \<^verbatim>\<open>Document '${name}'\<close> of the log lines.\<close>

definition doc_prefix :: "string \<Rightarrow> string" where
  "doc_prefix nm = ''Document '' @ [CHR 0x27] @ nm @ [CHR 0x27]"

definition new_DocumentState :: "doc_state_class \<Rightarrow> document_store \<Rightarrow> ref \<times> document_store" where
  "new_DocumentState k \<sigma> =
     (doc_next_ref \<sigma>,
      \<sigma>\<lparr> doc_states := (doc_states \<sigma>)(doc_next_ref \<sigma> \<mapsto>
             \<lparr> class_of_doc_state = k, document = None \<rparr>),
         doc_next_ref := Suc (doc_next_ref \<sigma>) \<rparr>)"

text \<open>
  \<^verbatim>\<open>new Document(name)\<close>: the document object, then a new \<^verbatim>\<open>DraftState\<close> whose
  \<^verbatim>\<open>document\<close> is set to it.
\<close>

definition Document_new :: "string \<Rightarrow> document_store \<Rightarrow> ref \<times> document_store" where
  "Document_new nm \<sigma> =
     (let d = doc_next_ref \<sigma>;
          \<sigma>1 = \<sigma>\<lparr>doc_next_ref := Suc d\<rparr> in
      case new_DocumentState DraftState \<sigma>1 of
        (s, \<sigma>2) \<Rightarrow>
          (d, doc_log (doc_prefix nm @ '' created in Draft state.'')
                (\<sigma>2\<lparr> documents := (documents \<sigma>2)(d \<mapsto> \<lparr> doc_name = nm, doc_state = s \<rparr>),
                     doc_states := (doc_states \<sigma>2)(s \<mapsto>
                        \<lparr> class_of_doc_state = DraftState, document = Some d \<rparr>) \<rparr>)))"

text \<open>
  \<^verbatim>\<open>changeState(state)\<close>: the log line reads the class names of the current and of
  the new state object, then \<^verbatim>\<open>this.state = state\<close> and
  \<^verbatim>\<open>this.state.setDocument(this)\<close>.
\<close>

definition changeState :: "ref \<Rightarrow> ref \<Rightarrow> document_store \<Rightarrow> document_store outcome" where
  "changeState d s \<sigma> =
     (case documents \<sigma> d of
        None \<Rightarrow> Throws TypeError \<sigma>
      | Some dob \<Rightarrow>
          (case doc_states \<sigma> (doc_state dob) of
             None \<Rightarrow> Throws TypeError \<sigma>
           | Some cur \<Rightarrow>
               (case doc_states \<sigma> s of
                  None \<Rightarrow> Throws TypeError \<sigma>
                | Some ob \<Rightarrow>
                    Returns (doc_log
                      (doc_prefix (doc_name dob) @ '': Changing state from ''
                         @ doc_state_class_name (class_of_doc_state cur) @ '' to ''
                         @ doc_state_class_name (class_of_doc_state ob))
                      (\<sigma>\<lparr> documents := (documents \<sigma>)(d \<mapsto> dob\<lparr>doc_state := s\<rparr>),
                          doc_states := (doc_states \<sigma>)(s \<mapsto> ob\<lparr>document := Some d\<rparr>) \<rparr>)))))"

text \<open>
  Every handler starts with a log line built from \<^verbatim>\<open>this.document.getName()\<close>.
  \<open>this_document\<close> resolves what that reads for the state object \<open>s\<close>: its class, its
  document and the document's name; \<open>None\<close> when the state object or its
  \<^verbatim>\<open>document\<close> field is \<^verbatim>\<open>undefined\<close>.
\<close>

definition this_document ::
  "ref \<Rightarrow> document_store \<Rightarrow> (doc_state_class \<times> ref \<times> string) option"
where
  "this_document s \<sigma> =
     (case doc_states \<sigma> s of
        None \<Rightarrow> None
      | Some ob \<Rightarrow>
          (case document ob of
             None \<Rightarrow> None
           | Some d \<Rightarrow>
               (case documents \<sigma> d of
                  None \<Rightarrow> None
                | Some dob \<Rightarrow> Some (class_of_doc_state ob, d, doc_name dob))))"

text \<open>The methods \<^verbatim>\<open>publish\<close>, \<^verbatim>\<open>review\<close> and \<^verbatim>\<open>reject\<close> of the three
  state classes, one function per method, one branch per class.\<close>

definition DocumentState_publish :: "ref \<Rightarrow> document_store \<Rightarrow> document_store outcome" where
  "DocumentState_publish s \<sigma> =
     (case this_document s \<sigma> of
        None \<Rightarrow> Throws TypeError \<sigma>
      | Some (k, d, nm) \<Rightarrow>
          (case k of
             DraftState \<Rightarrow>
               (case new_DocumentState ModerationState
                       (doc_log (doc_prefix nm @ '': Sending for moderation first.'')
                         (doc_log (doc_prefix nm @ '': Cannot publish directly from Draft state.'')
                           \<sigma>)) of
                  (s', \<sigma>') \<Rightarrow> changeState d s' \<sigma>')
           | ModerationState \<Rightarrow>
               Returns (doc_log (doc_prefix nm
                 @ '': Cannot publish from Moderation state. Document must be approved first.'') \<sigma>)
           | PublishedState \<Rightarrow>
               Returns (doc_log (doc_prefix nm @ '': Document is already published.'') \<sigma>)))"

definition DocumentState_review :: "ref \<Rightarrow> document_store \<Rightarrow> document_store outcome" where
  "DocumentState_review s \<sigma> =
     (case this_document s \<sigma> of
        None \<Rightarrow> Throws TypeError \<sigma>
      | Some (k, d, nm) \<Rightarrow>
          (case k of
             DraftState \<Rightarrow>
               Returns (doc_log (doc_prefix nm @ '': Draft is under review.'') \<sigma>)
           | ModerationState \<Rightarrow>
               (case new_DocumentState PublishedState
                       (doc_log (doc_prefix nm @ '': Document has been reviewed and approved.'')
                           \<sigma>) of
                  (s', \<sigma>') \<Rightarrow> changeState d s' \<sigma>')
           | PublishedState \<Rightarrow>
               Returns (doc_log (doc_prefix nm @ '': Published document is being reviewed.'') \<sigma>)))"

definition DocumentState_reject :: "ref \<Rightarrow> document_store \<Rightarrow> document_store outcome" where
  "DocumentState_reject s \<sigma> =
     (case this_document s \<sigma> of
        None \<Rightarrow> Throws TypeError \<sigma>
      | Some (k, d, nm) \<Rightarrow>
          (case k of
             DraftState \<Rightarrow>
               Returns (doc_log (doc_prefix nm
                 @ '': Draft cannot be rejected yet. It needs to be reviewed first.'') \<sigma>)
           | ModerationState \<Rightarrow>
               (case new_DocumentState DraftState
                       (doc_log (doc_prefix nm @ '': Document has been rejected.'') \<sigma>) of
                  (s', \<sigma>') \<Rightarrow> changeState d s' \<sigma>')
           | PublishedState \<Rightarrow>
               (case new_DocumentState DraftState
                       (doc_log (doc_prefix nm
                          @ '': Published document has been rejected and unpublished.'') \<sigma>) of
                  (s', \<sigma>') \<Rightarrow> changeState d s' \<sigma>')))"

text \<open>The document delegates each request to its current state object.\<close>

definition Document_publish :: "ref \<Rightarrow> document_store \<Rightarrow> document_store outcome" where
  "Document_publish d \<sigma> =
     (case documents \<sigma> d of
        None \<Rightarrow> Throws TypeError \<sigma>
      | Some dob \<Rightarrow> DocumentState_publish (doc_state dob) \<sigma>)"

definition Document_review :: "ref \<Rightarrow> document_store \<Rightarrow> document_store outcome" where
  "Document_review d \<sigma> =
     (case documents \<sigma> d of
        None \<Rightarrow> Throws TypeError \<sigma>
      | Some dob \<Rightarrow> DocumentState_review (doc_state dob) \<sigma>)"

definition Document_reject :: "ref \<Rightarrow> document_store \<Rightarrow> document_store outcome" where
  "Document_reject d \<sigma> =
     (case documents \<sigma> d of
        None \<Rightarrow> Throws TypeError \<sigma>
      | Some dob \<Rightarrow> DocumentState_reject (doc_state dob) \<sigma>)"

text \<open>
  The three requests as triggers, so that a property can range over them, and the
  transition table the handlers implement: the pairs (class of the current state,
  trigger) whose handler calls \<^verbatim>\<open>changeState\<close>, with the class it installs. Every
  other pair has no rule.
\<close>

datatype trigger = Publish | Review | Reject

fun Document_request :: "trigger \<Rightarrow> ref \<Rightarrow> document_store \<Rightarrow> document_store outcome" where
  "Document_request Publish d \<sigma> = Document_publish d \<sigma>"
| "Document_request Review d \<sigma> = Document_review d \<sigma>"
| "Document_request Reject d \<sigma> = Document_reject d \<sigma>"

fun transition_rule :: "doc_state_class \<Rightarrow> trigger \<Rightarrow> doc_state_class option" where
  "transition_rule DraftState Publish = Some ModerationState"
| "transition_rule ModerationState Review = Some PublishedState"
| "transition_rule ModerationState Reject = Some DraftState"
| "transition_rule PublishedState Reject = Some DraftState"
| "transition_rule _ _ = None"

text \<open>
  The document's invariant: the document exists, the object installed as its current
  state exists, and that object's \<^verbatim>\<open>document\<close> field refers to the document.
  \<open>document_class\<close> reads the class of the current state.
\<close>

definition doc_backref_ok :: "document_store \<Rightarrow> ref \<Rightarrow> bool" where
  "doc_backref_ok \<sigma> d =
     (case documents \<sigma> d of
        None \<Rightarrow> False
      | Some dob \<Rightarrow>
          (case doc_states \<sigma> (doc_state dob) of
             None \<Rightarrow> False
           | Some ob \<Rightarrow> document ob = Some d))"

definition document_class :: "document_store \<Rightarrow> ref \<Rightarrow> doc_state_class option" where
  "document_class \<sigma> d =
     (case documents \<sigma> d of
        None \<Rightarrow> None
      | Some dob \<Rightarrow> map_option class_of_doc_state (doc_states \<sigma> (doc_state dob)))"

text \<open>The stores used as concrete inputs: the demonstration's document, new and after
  \<^verbatim>\<open>publish()\<close>; a store holding one \<^verbatim>\<open>ConcreteStateA\<close> object.\<close>

definition demo_document_store :: document_store where
  "demo_document_store = snd (Document_new ''Design Patterns Article'' empty_document_store)"

definition moderated_document_store :: document_store where
  "moderated_document_store = final (Document_publish 0 demo_document_store)"

definition one_state_store :: context_store where
  "one_state_store = snd (new_State ConcreteStateA empty_context_store)"

definition demo_context_store :: context_store where
  "demo_context_store = snd (final (Context_new 0 one_state_store))"

section \<open>Mediator pattern: \<^verbatim>\<open>src/unnamed/part_002\<close>\<close>

subsection \<open>\<^verbatim>\<open>ConcreteMediator\<close> and its two components\<close>

text \<open>
  The mediator as its constructor wires it: both components exist and refer to it. The
  reactions \<^verbatim>\<open>doB\<close> and \<^verbatim>\<open>doC\<close> only log; they do not call the mediator.
  \<^verbatim>\<open>notify\<close> ignores its \<^verbatim>\<open>sender\<close> argument and compares the event with
  \<^verbatim>\<open>'A'\<close>, then with \<^verbatim>\<open>'D'\<close>.
\<close>

definition Component1_doB :: "console \<Rightarrow> console" where
  "Component1_doB out = log ''Component 1 does B.'' INFO out"

definition Component2_doC :: "console \<Rightarrow> console" where
  "Component2_doC out = log ''Component 2 does C.'' INFO out"

definition ConcreteMediator_notify :: "string \<Rightarrow> console \<Rightarrow> console" where
  "ConcreteMediator_notify event out =
     (let out1 =
            (if event = ''A''
             then Component2_doC
                    (log ''Mediator reacts to A and triggers following operations:'' INFO out)
             else out) in
      if event = ''D''
      then Component2_doC (Component1_doB
             (log ''Mediator reacts to D and triggers following operations:'' INFO out1))
      else out1)"

definition Component1_doA :: "console \<Rightarrow> console" where
  "Component1_doA out = ConcreteMediator_notify ''A'' (log ''Component 1 does A.'' INFO out)"

definition Component2_doD :: "console \<Rightarrow> console" where
  "Component2_doD out = ConcreteMediator_notify ''D'' (log ''Component 2 does D.'' INFO out)"

subsection \<open>\<^verbatim>\<open>ChatRoom\<close> and its users\<close>

text \<open>
  \<^verbatim>\<open>interface User\<close> is open. \<open>ChatUser\<close> is the class of the source: its
  \<^verbatim>\<open>receive\<close> only logs. \<open>Responder f\<close> stands for an implementation that differs
  from \<^verbatim>\<open>ChatUser\<close> in what follows the log line of
  \<^verbatim>\<open>receive(sender, message)\<close>: with \<open>f sender message = (answers, err)\<close> it sends
  each of the answers through its own \<^verbatim>\<open>send\<close>, that is, it notifies the chat
  room again from inside a notification, and then throws \<open>err\<close> if there is one. It
  catches nothing and registers nobody.
\<close>

datatype user_class =
  ChatUser | Responder "string \<Rightarrow> string \<Rightarrow> string list \<times> js_error option"

text \<open>A user object: \<^verbatim>\<open>name\<close>, \<^verbatim>\<open>chatRoom\<close> (unset until
  \<^verbatim>\<open>setChatRoom\<close>), and its class.\<close>

record user_obj =
  user_name :: string
  chatRoom :: "ref option"
  class_of_user :: user_class

text \<open>
  The store: the user objects, and for every \<^verbatim>\<open>ChatRoom\<close> object its
  \<^verbatim>\<open>users\<close> map. A JavaScript \<^verbatim>\<open>Map\<close> iterates in insertion order, so the
  map is the list of its entries in that order. \<open>send_depths\<close> is a ghost variable: for
  every call of \<^verbatim>\<open>ChatRoom.send\<close> entered so far, how many such calls were active
  at that moment, the new one included.
\<close>

record chat_store =
  user_objs :: "ref \<rightharpoonup> user_obj"
  rooms :: "ref \<rightharpoonup> (string \<times> ref) list"
  chat_console :: console
  send_depths :: "nat list"

text \<open>
  \<^verbatim>\<open>register(user)\<close>: only a name that the map does not have yet is entered.
\<close>

definition ChatRoom_register :: "ref \<Rightarrow> ref \<Rightarrow> chat_store \<Rightarrow> chat_store outcome" where
  "ChatRoom_register room u \<sigma> =
     (case user_objs \<sigma> u of
        None \<Rightarrow> Throws TypeError \<sigma>
      | Some uo \<Rightarrow>
          (case rooms \<sigma> room of
             None \<Rightarrow> Throws TypeError \<sigma>
           | Some us \<Rightarrow>
               if user_name uo \<notin> set (map fst us)
               then Returns (\<sigma>\<lparr> rooms := (rooms \<sigma>)(room \<mapsto> us @ [(user_name uo, u)]),
                                user_objs := (user_objs \<sigma>)(u \<mapsto> uo\<lparr>chatRoom := Some room\<rparr>),
                                chat_console :=
                                  log (''ChatRoom: '' @ user_name uo @ '' joined the chat room.'')
                                    INFO (chat_console \<sigma>) \<rparr>)
               else Returns \<sigma>))"

text \<open>
  \<^verbatim>\<open>ChatRoom.send\<close>, its \<^verbatim>\<open>forEach\<close> loop, a user's \<^verbatim>\<open>receive\<close>, the
  loop over a responder's answers, and a user's \<^verbatim>\<open>send\<close> call each other on the
  JavaScript call stack. The code has no depth counter and no limit of its own; what
  ends a chain that does not end by itself is the engine, which throws a
  \<^verbatim>\<open>RangeError\<close> when the stack is full. The first argument \<open>cap\<close> is the number
  of nested \<^verbatim>\<open>ChatRoom.send\<close> calls the engine's stack holds (it depends on the
  engine); the second is the number of \<^verbatim>\<open>ChatRoom.send\<close> calls active, the
  current one included (0 for a call from the client). The model lets the stack
  overflow where a \<^verbatim>\<open>ChatRoom.send\<close> would be entered beyond \<open>cap\<close>. Nothing in
  these classes catches an error.
\<close>

definition RangeError :: js_error where
  "RangeError = JsError ''RangeError'' ''Maximum call stack size exceeded''"

function (sequential) ChatRoom_send ::
    "nat \<Rightarrow> nat \<Rightarrow> ref \<Rightarrow> string \<Rightarrow> ref \<Rightarrow> chat_store \<Rightarrow> chat_store outcome"
  and forEach_user ::
    "nat \<Rightarrow> nat \<Rightarrow> (string \<times> ref) list \<Rightarrow> string \<Rightarrow> string \<Rightarrow> chat_store
      \<Rightarrow> chat_store outcome"
  and User_receive ::
    "nat \<Rightarrow> nat \<Rightarrow> ref \<Rightarrow> string \<Rightarrow> string \<Rightarrow> chat_store \<Rightarrow> chat_store outcome"
  and send_each ::
    "nat \<Rightarrow> nat \<Rightarrow> ref \<Rightarrow> string list \<Rightarrow> chat_store \<Rightarrow> chat_store outcome"
  and User_send ::
    "nat \<Rightarrow> nat \<Rightarrow> ref \<Rightarrow> string \<Rightarrow> chat_store \<Rightarrow> chat_store outcome"
where
  "ChatRoom_send cap d room msg sender \<sigma> =
     (if cap < d then Throws RangeError \<sigma>
      else
        (case user_objs \<sigma> sender of
           None \<Rightarrow> Throws TypeError \<sigma>
         | Some su \<Rightarrow>
             (case rooms \<sigma> room of
                None \<Rightarrow> Throws TypeError \<sigma>
              | Some us \<Rightarrow>
                  forEach_user cap d us (user_name su) msg
                    (\<sigma>\<lparr> chat_console :=
                           log (''ChatRoom: Dispatching message from '' @ user_name su) INFO
                             (chat_console \<sigma>),
                         send_depths := send_depths \<sigma> @ [d] \<rparr>))))"
| "forEach_user cap d [] sn msg \<sigma> = Returns \<sigma>"
| "forEach_user cap d ((nm, u) # rest) sn msg \<sigma> =
     (if nm \<noteq> sn
      then (case User_receive cap d u sn msg \<sigma> of
              Throws e \<sigma>' \<Rightarrow> Throws e \<sigma>'
            | Returns \<sigma>' \<Rightarrow> forEach_user cap d rest sn msg \<sigma>')
      else forEach_user cap d rest sn msg \<sigma>)"
| "User_receive cap d u sn msg \<sigma> =
     (case user_objs \<sigma> u of
        None \<Rightarrow> Throws TypeError \<sigma>
      | Some uo \<Rightarrow>
          (let \<sigma>1 = \<sigma>\<lparr>chat_console :=
                 log (user_name uo @ '' received message from '' @ sn @ '': '' @ msg) INFO
                   (chat_console \<sigma>)\<rparr> in
           case class_of_user uo of
             ChatUser \<Rightarrow> Returns \<sigma>1
           | Responder f \<Rightarrow>
               (case send_each cap d u (fst (f sn msg)) \<sigma>1 of
                  Throws e \<sigma>' \<Rightarrow> Throws e \<sigma>'
                | Returns \<sigma>' \<Rightarrow>
                    (case snd (f sn msg) of
                       None \<Rightarrow> Returns \<sigma>'
                     | Some e \<Rightarrow> Throws e \<sigma>'))))"
| "send_each cap d u [] \<sigma> = Returns \<sigma>"
| "send_each cap d u (m # ms) \<sigma> =
     (case User_send cap d u m \<sigma> of
        Throws e \<sigma>' \<Rightarrow> Throws e \<sigma>'
      | Returns \<sigma>' \<Rightarrow> send_each cap d u ms \<sigma>')"
| "User_send cap d u m \<sigma> =
     (case user_objs \<sigma> u of
        None \<Rightarrow> Throws TypeError \<sigma>
      | Some uo \<Rightarrow>
          (let \<sigma>1 = \<sigma>\<lparr>chat_console :=
                 log (user_name uo @ '' sends: '' @ m) INFO (chat_console \<sigma>)\<rparr> in
           case chatRoom uo of
             None \<Rightarrow> Throws TypeError \<sigma>1
           | Some r \<Rightarrow> ChatRoom_send cap (Suc d) r m u \<sigma>1))"
  by pat_completeness auto

text \<open>
  Termination: every entry of \<^verbatim>\<open>ChatRoom.send\<close> that is not refused uses up one
  of the nestings the stack still holds; between two entries every call goes down the
  chain forEach, receive, answers, send, or to the rest of a list.
\<close>

termination
  by (relation "measures
       [\<lambda>x. case x of
            Inl (Inl (cap, d, room, msg, sender, \<sigma>)) \<Rightarrow>
              (if d \<le> cap then 2 * (Suc cap - d) + 3 else 0)
          | Inl (Inr (cap, d, us, sn, msg, \<sigma>)) \<Rightarrow> 2 * (Suc cap - d) + 2
          | Inr (Inl (cap, d, u, sn, msg, \<sigma>)) \<Rightarrow> 2 * (Suc cap - d) + 2
          | Inr (Inr (Inl (cap, d, u, ms, \<sigma>))) \<Rightarrow> 2 * (Suc cap - d) + 2
          | Inr (Inr (Inr (cap, d, u, m, \<sigma>))) \<Rightarrow> 2 * (Suc cap - d) + 2,
        \<lambda>x. case x of
            Inl (Inl (cap, d, room, msg, sender, \<sigma>)) \<Rightarrow> 0
          | Inl (Inr (cap, d, us, sn, msg, \<sigma>)) \<Rightarrow> 4
          | Inr (Inl (cap, d, u, sn, msg, \<sigma>)) \<Rightarrow> 3
          | Inr (Inr (Inl (cap, d, u, ms, \<sigma>))) \<Rightarrow> 2
          | Inr (Inr (Inr (cap, d, u, m, \<sigma>))) \<Rightarrow> 1,
        \<lambda>x. case x of
            Inl (Inl (cap, d, room, msg, sender, \<sigma>)) \<Rightarrow> 0
          | Inl (Inr (cap, d, us, sn, msg, \<sigma>)) \<Rightarrow> length us
          | Inr (Inl (cap, d, u, sn, msg, \<sigma>)) \<Rightarrow> 0
          | Inr (Inr (Inl (cap, d, u, ms, \<sigma>))) \<Rightarrow> length ms
          | Inr (Inr (Inr (cap, d, u, m, \<sigma>))) \<Rightarrow> 0]")
    auto

declare ChatRoom_send.simps [simp del] User_receive.simps [simp del] User_send.simps [simp del]

text \<open>
  What a call leaves behind, whether it returns or throws: the console and the ghost
  list have only grown, and the user objects and the rooms' maps are as before.
\<close>

definition only_grown :: "chat_store \<Rightarrow> chat_store outcome \<Rightarrow> bool" where
  "only_grown \<sigma> res =
     (prefix (chat_console \<sigma>) (chat_console (final res))
      \<and> prefix (send_depths \<sigma>) (send_depths (final res))
      \<and> user_objs (final res) = user_objs \<sigma>
      \<and> rooms (final res) = rooms \<sigma>)"

text \<open>
  Where an error that leaves a call can come from: an unset reference
  (\<^verbatim>\<open>TypeError\<close>), the engine's full stack (\<^verbatim>\<open>RangeError\<close>), or the
  \<^verbatim>\<open>receive\<close> of a user of the store that throws it. The router has no error of
  its own.
\<close>

definition no_error_of_the_router :: "chat_store \<Rightarrow> chat_store outcome \<Rightarrow> bool" where
  "no_error_of_the_router \<sigma> res =
     (case thrown res of
        None \<Rightarrow> True
      | Some e \<Rightarrow>
          err_name e = ''TypeError'' \<or> err_name e = ''RangeError''
          \<or> (\<exists>u uo f sn msg. user_objs \<sigma> u = Some uo \<and> class_of_user uo = Responder f
                \<and> snd (f sn msg) = Some e))"

definition chain_ok :: "chat_store \<Rightarrow> chat_store outcome \<Rightarrow> bool" where
  "chain_ok \<sigma> res = (only_grown \<sigma> res \<and> no_error_of_the_router \<sigma> res)"

text \<open>
  Concrete stores. In \<open>pingpong_store\<close> room 0 has two responders, Alice (object 1) and
  Bob (object 2); each answers a message that is not empty with the same message less
  its first character, and throws nothing. In \<open>two_alices_store\<close> room 0 is empty and
  two different \<^verbatim>\<open>ChatUser\<close> objects, 1 and 2, both have the name Alice.
\<close>

definition countdown :: "string \<Rightarrow> string \<Rightarrow> string list \<times> js_error option" where
  "countdown sn msg = (if msg = [] then ([], None) else ([tl msg], None))"

definition pingpong_store :: chat_store where
  "pingpong_store =
     \<lparr> user_objs = [1 \<mapsto> \<lparr> user_name = ''Alice'', chatRoom = Some 0,
                              class_of_user = Responder countdown \<rparr>,
                      2 \<mapsto> \<lparr> user_name = ''Bob'', chatRoom = Some 0,
                              class_of_user = Responder countdown \<rparr>],
       rooms = [0 \<mapsto> [(''Alice'', 1), (''Bob'', 2)]],
       chat_console = [],
       send_depths = [] \<rparr>"

definition two_alices_store :: chat_store where
  "two_alices_store =
     \<lparr> user_objs = [1 \<mapsto> \<lparr> user_name = ''Alice'', chatRoom = None, class_of_user = ChatUser \<rparr>,
                      2 \<mapsto> \<lparr> user_name = ''Alice'', chatRoom = None, class_of_user = ChatUser \<rparr>],
       rooms = [0 \<mapsto> []],
       chat_console = [],
       send_depths = [] \<rparr>"

section \<open>Properties of the invoker's history\<close>

text \<open>
  C1. For every history holding at least one command (\<open>rest @ [c]\<close>, the top \<open>c\<close> being
  the command pushed last), \<^verbatim>\<open>undo\<close> removes exactly \<open>c\<close>, leaves \<open>rest\<close> as it
  was and in the same order, and what happens next is \<open>c\<close>'s own \<^verbatim>\<open>undo()\<close>, run
  after the log line: the call returns or throws as that action does. The two command
  slots are not touched.
\<close>

theorem undo_removes_and_inverts_top:
  assumes "history ivk = rest @ [c]"
  shows "Invoker_undo ivk out =
           lift_state (\<lambda>out'. (ivk\<lparr>history := rest\<rparr>, out'))
             (undo c (log ''Invoker: Undoing last command'' INFO out))
         \<and> history (fst (final (Invoker_undo ivk out))) = rest
         \<and> onStart (fst (final (Invoker_undo ivk out))) = onStart ivk
         \<and> onFinish (fst (final (Invoker_undo ivk out))) = onFinish ivk"
proof -
  have l: "last (history ivk) = c" and b: "butlast (history ivk) = rest"
    using assms by simp_all
  have "history ivk \<noteq> []"
    using assms by simp
  then obtain x xs where h: "history ivk = x # xs"
    by (cases "history ivk") auto
  have eq: "Invoker_undo ivk out =
           lift_state (\<lambda>out'. (ivk\<lparr>history := rest\<rparr>, out'))
             (undo c (log ''Invoker: Undoing last command'' INFO out))"
    unfolding Invoker_undo_def Let_def l b by (simp add: h)
  show ?thesis
    unfolding eq
    by (cases "undo c (log ''Invoker: Undoing last command'' INFO out)") simp_all
qed

theorem undo_removes_and_inverts_top_witness:
  "history (demo_invoker\<lparr>history :=
       [SimpleCommand ''Say Hi!'', ComplexCommand ''Send email'' ''Save report'']\<rparr>)
     = [SimpleCommand ''Say Hi!''] @ [ComplexCommand ''Send email'' ''Save report'']
   \<and> Invoker_undo (demo_invoker\<lparr>history :=
       [SimpleCommand ''Say Hi!'', ComplexCommand ''Send email'' ''Save report'']\<rparr>) []
     = Returns (demo_invoker\<lparr>history := [SimpleCommand ''Say Hi!'']\<rparr>,
         [(INFO, ''Invoker: Undoing last command''),
          (INFO, ''ComplexCommand: Undoing complex stuff.''),
          (INFO, ''Receiver: Undoing action on (Send email)''),
          (INFO, ''Receiver: Undoing another action on (Save report)'')])"
  using undo_removes_and_inverts_top
    [of "demo_invoker\<lparr>history :=
           [SimpleCommand ''Say Hi!'', ComplexCommand ''Send email'' ''Save report'']\<rparr>"
        "[SimpleCommand ''Say Hi!'']" "ComplexCommand ''Send email'' ''Save report''" "[]"]
  by (simp add: ComplexCommand_def log_def Receiver_undoSomething_def
      Receiver_undoSomethingElse_def)

text \<open>
  C2, as stated, fails: the error that leaves \<^verbatim>\<open>doSomethingImportant\<close> is the very
  error object the forward action threw. Here the start command throws
  \<^verbatim>\<open>new Error('boom')\<close>, and that \<^verbatim>\<open>Error\<close>, not a \<^verbatim>\<open>CommandFailed\<close>,
  reaches the caller. (The history is indeed left empty.)
\<close>

theorem failed_command_error_is_not_CommandFailed:
  "doSomethingImportant (setOnStart failing_command Invoker_new) []
     = Throws (JsError ''Error'' ''boom'')
         (setOnStart failing_command Invoker_new,
          [(INFO, ''Invoker: Does anybody want something done before I begin?'')])"
  by (simp add: doSomethingImportant_def setOnStart_def Invoker_new_def failing_command_def
      log_def)

text \<open>
  C2, amended. A command whose forward action throws is not pushed, and the thrown value
  reaches the caller unchanged:
  \<^item> if the start command throws, the invoker is exactly as before the call;
  \<^item> if the finish command throws, the invoker is as the start phase left it: the
    history grown by the start command when one is set and its action returned, and by
    nothing else;
  \<^item> when the call returns, the history has grown by the commands that are set, in the
    order start, finish.
\<close>

theorem failed_forward_action_is_not_pushed:
  "(onStart ivk = Some c \<and>
    execute c (log ''Invoker: Does anybody want something done before I begin?'' INFO out0)
      = Throws e out'
    \<longrightarrow> doSomethingImportant ivk out0 = Throws e (ivk, out'))
   \<and> (onStart ivk = None \<and> onFinish ivk = Some c \<and>
      execute c
        (log ''Invoker: Does anybody want something done after I finish?'' INFO
          (log ''Invoker: ...doing something really important...'' INFO
            (log ''Invoker: Does anybody want something done before I begin?'' INFO out0)))
        = Throws e out'
      \<longrightarrow> doSomethingImportant ivk out0 = Throws e (ivk, out'))
   \<and> (onStart ivk = Some c0 \<and>
      execute c0 (log ''Invoker: Does anybody want something done before I begin?'' INFO out0)
        = Returns out2 \<and>
      onFinish ivk = Some c \<and>
      execute c
        (log ''Invoker: Does anybody want something done after I finish?'' INFO
          (log ''Invoker: ...doing something really important...'' INFO out2))
        = Throws e out'
      \<longrightarrow> doSomethingImportant ivk out0
            = Throws e (ivk\<lparr>history := history ivk @ [c0]\<rparr>, out'))
   \<and> (doSomethingImportant ivk out0 = Returns (ivk', out'')
      \<longrightarrow> history ivk' =
            history ivk @ (case onStart ivk of None \<Rightarrow> [] | Some a \<Rightarrow> [a])
                        @ (case onFinish ivk of None \<Rightarrow> [] | Some b \<Rightarrow> [b]))"
  by (auto simp: doSomethingImportant_def Let_def split: option.splits outcome.splits)

theorem failed_forward_action_is_not_pushed_witness:
  "doSomethingImportant (setOnStart failing_command Invoker_new) []
     = Throws (JsError ''Error'' ''boom'')
         (setOnStart failing_command Invoker_new,
          [(INFO, ''Invoker: Does anybody want something done before I begin?'')])
   \<and> doSomethingImportant (setOnFinish failing_command Invoker_new) []
     = Throws (JsError ''Error'' ''boom'')
         (setOnFinish failing_command Invoker_new,
          [(INFO, ''Invoker: Does anybody want something done before I begin?''),
           (INFO, ''Invoker: ...doing something really important...''),
           (INFO, ''Invoker: Does anybody want something done after I finish?'')])
   \<and> doSomethingImportant
       (setOnFinish failing_command (setOnStart (SimpleCommand ''Say Hi!'') Invoker_new)) []
     = Throws (JsError ''Error'' ''boom'')
         ((setOnFinish failing_command (setOnStart (SimpleCommand ''Say Hi!'') Invoker_new))
            \<lparr>history := [SimpleCommand ''Say Hi!'']\<rparr>,
          [(INFO, ''Invoker: Does anybody want something done before I begin?''),
           (INFO, ''SimpleCommand: See, I can do simple things like printing (Say Hi!)''),
           (INFO, ''Invoker: ...doing something really important...''),
           (INFO, ''Invoker: Does anybody want something done after I finish?'')])
   \<and> history (fst (final (doSomethingImportant demo_invoker [])))
     = [SimpleCommand ''Say Hi!'', ComplexCommand ''Send email'' ''Save report'']"
  using
    failed_forward_action_is_not_pushed
      [of "setOnStart failing_command Invoker_new" failing_command "[]"
          "JsError ''Error'' ''boom''"
          "[(INFO, ''Invoker: Does anybody want something done before I begin?'')]"]
    failed_forward_action_is_not_pushed
      [of "setOnFinish failing_command Invoker_new" failing_command "[]"
          "JsError ''Error'' ''boom''"
          "[(INFO, ''Invoker: Does anybody want something done before I begin?''),
            (INFO, ''Invoker: ...doing something really important...''),
            (INFO, ''Invoker: Does anybody want something done after I finish?'')]"]
    failed_forward_action_is_not_pushed
      [of "setOnFinish failing_command (setOnStart (SimpleCommand ''Say Hi!'') Invoker_new)"
          failing_command "[]" "JsError ''Error'' ''boom''"
          "[(INFO, ''Invoker: Does anybody want something done before I begin?''),
            (INFO, ''SimpleCommand: See, I can do simple things like printing (Say Hi!)''),
            (INFO, ''Invoker: ...doing something really important...''),
            (INFO, ''Invoker: Does anybody want something done after I finish?'')]"
          "SimpleCommand ''Say Hi!''"
          "[(INFO, ''Invoker: Does anybody want something done before I begin?''),
            (INFO, ''SimpleCommand: See, I can do simple things like printing (Say Hi!)'')]"]
    failed_forward_action_is_not_pushed
      [of demo_invoker _ "[]" _ _ _ _
          "fst (final (doSomethingImportant demo_invoker []))"
          "snd (final (doSomethingImportant demo_invoker []))"]
  by (simp add: doSomethingImportant_def setOnStart_def setOnFinish_def Invoker_new_def
      failing_command_def demo_invoker_def SimpleCommand_def ComplexCommand_def log_def
      Receiver_doSomething_def Receiver_doSomethingElse_def)

text \<open>
  C3, as stated, fails: on an empty history \<^verbatim>\<open>undo\<close> throws nothing. It returns,
  and it has written a line to the console.
\<close>

theorem undo_on_empty_history_returns:
  "Invoker_undo Invoker_new []
     = Returns (Invoker_new, [(INFO, ''Invoker: No commands to undo'')])"
  by (simp add: Invoker_undo_def Invoker_new_def log_def)

text \<open>
  C3, amended. With an empty history \<^verbatim>\<open>undo\<close> returns normally; the invoker
  (history and both slots) is unchanged, no command is run, and the only effect is the
  line \<^verbatim>\<open>Invoker: No commands to undo\<close> on the console.
\<close>

theorem undo_on_empty_history_is_logged_noop:
  assumes "history ivk = []"
  shows "Invoker_undo ivk out = Returns (ivk, out @ [(INFO, ''Invoker: No commands to undo'')])"
  using assms by (simp add: Invoker_undo_def log_def)

theorem undo_on_empty_history_is_logged_noop_witness:
  "history demo_invoker = []
   \<and> Invoker_undo demo_invoker [(INFO, ''Client: Now let's try undoing operations'')]
     = Returns (demo_invoker,
         [(INFO, ''Client: Now let's try undoing operations''),
          (INFO, ''Invoker: No commands to undo'')])"
  using undo_on_empty_history_is_logged_noop
    [of demo_invoker "[(INFO, ''Client: Now let's try undoing operations'')]"]
  by (simp add: demo_invoker_def setOnStart_def setOnFinish_def Invoker_new_def)

section \<open>Properties of the subject's notifications\<close>

text \<open>Facts about the notification loop and the subscription calls.\<close>

lemma notify_loop_quiet:
  assumes "\<forall>x \<in> set (observers s). leaves_array_alone (tbl x)"
    and "notify_loop fuel tbl i (s, called, out) = Some res"
  shows "observers (fst (final res)) = observers s
         \<and> (\<exists>n. called_by res = called @ take n (drop i (observers s)))
         \<and> (thrown res = None \<longrightarrow> called_by res = called @ drop i (observers s))"
  using assms
proof (induction fuel arbitrary: i s called out)
  case 0
  then show ?case by simp
next
  case (Suc fuel)
  show ?case
  proof (cases "i < length (observers s)")
    case False
    with Suc.prems(2) have "res = Returns (s, called, out)" by simp
    with False show ?thesis by (simp add: called_by_def)
  next
    case True
    let ?ob = "observers s ! i"
    have mem: "?ob \<in> set (observers s)" using True by simp
    have d: "drop i (observers s) = ?ob # drop (Suc i) (observers s)"
      using True by (simp add: Cons_nth_drop_Suc)
    from Suc.prems(2) True obtain r where r: "update (tbl ?ob) (s, out) = Some r"
      by (cases "update (tbl ?ob) (s, out)") auto
    from Suc.prems(1) mem r have keep: "observers (fst (final r)) = observers s"
      unfolding leaves_array_alone_def by blast
    show ?thesis
    proof (cases r)
      case (Throws e st')
      obtain s' out' where st': "st' = (s', out')" by (cases st')
      from Suc.prems(2) True r Throws st'
      have res: "res = Throws e (s', called @ [?ob], out')" by simp
      have "called_by res = called @ take (Suc 0) (drop i (observers s))"
        by (simp add: res called_by_def d)
      then have "\<exists>n. called_by res = called @ take n (drop i (observers s))"
        by blast
      moreover have "observers (fst (final res)) = observers s"
        using keep Throws st' res by simp
      ultimately show ?thesis by (simp add: res)
    next
      case (Returns st')
      obtain s' out' where st': "st' = (s', out')" by (cases st')
      from keep Returns st' have same: "observers s' = observers s" by simp
      from Suc.prems(2) True r Returns st'
      have run: "notify_loop fuel tbl (Suc i) (s', called @ [?ob], out') = Some res" by simp
      have q: "\<forall>x \<in> set (observers s'). leaves_array_alone (tbl x)"
        using Suc.prems(1) same by simp
      from Suc.IH [OF q run] have
        ih1: "observers (fst (final res)) = observers s" and
        ih2: "\<exists>n. called_by res = (called @ [?ob]) @ take n (drop (Suc i) (observers s))" and
        ih3: "thrown res = None
              \<longrightarrow> called_by res = (called @ [?ob]) @ drop (Suc i) (observers s)"
        unfolding same by blast+
      from ih2 obtain n where
        n: "called_by res = (called @ [?ob]) @ take n (drop (Suc i) (observers s))"
        by blast
      have "called_by res = called @ take (Suc n) (drop i (observers s))"
        using n by (simp add: d)
      then have "\<exists>n. called_by res = called @ take n (drop i (observers s))"
        by blast
      moreover have "thrown res = None \<longrightarrow> called_by res = called @ drop i (observers s)"
        using ih3 by (simp add: d)
      ultimately show ?thesis using ih1 by blast
    qed
  qed
qed

lemma notify_loop_throws:
  "notify_loop fuel tbl i (s, called, out) = Some (Throws e (s', called', out')) \<Longrightarrow>
   \<exists>pre ob s1 out1. called' = called @ pre @ [ob]
      \<and> update (tbl ob) (s1, out1) = Some (Throws e (s', out'))"
proof (induction fuel arbitrary: i s called out)
  case 0
  then show ?case by simp
next
  case (Suc fuel)
  show ?case
  proof (cases "i < length (observers s)")
    case False
    with Suc.prems show ?thesis by simp
  next
    case True
    let ?ob = "observers s ! i"
    from Suc.prems True obtain r where r: "update (tbl ?ob) (s, out) = Some r"
      by (cases "update (tbl ?ob) (s, out)") auto
    show ?thesis
    proof (cases r)
      case (Throws e1 st1)
      obtain s1 out1 where st1: "st1 = (s1, out1)" by (cases st1)
      from Suc.prems True r Throws st1
      have "e1 = e" "s1 = s'" "called' = called @ [?ob]" "out1 = out'" by simp_all
      with r Throws st1
      have "called' = called @ [] @ [?ob] \<and> update (tbl ?ob) (s, out) = Some (Throws e (s', out'))"
        by simp
      then show ?thesis by blast
    next
      case (Returns st1)
      obtain s1 out1 where st1: "st1 = (s1, out1)" by (cases st1)
      from Suc.prems True r Returns st1
      have "notify_loop fuel tbl (Suc i) (s1, called @ [?ob], out1)
          = Some (Throws e (s', called', out'))" by simp
      from Suc.IH [OF this] obtain pre ob s2 out2 where
        "called' = (called @ [?ob]) @ pre @ [ob]"
        "update (tbl ob) (s2, out2) = Some (Throws e (s', out'))"
        by blast
      then have "called' = called @ (?ob # pre) @ [ob]
          \<and> update (tbl ob) (s2, out2) = Some (Throws e (s', out'))"
        by simp
      then show ?thesis by blast
    qed
  qed
qed


lemma notify_loop_reaches:
  assumes "\<forall>x \<in> set (observers s). leaves_array_alone (tbl x)"
    and "observers s = pre @ ob # post"
    and "\<forall>x \<in> set (drop i pre). returns_always (tbl x)"
    and "throws_always (tbl ob) e"
    and "i \<le> length pre"
    and "length pre - i < fuel"
  shows "\<exists>s' out'. notify_loop fuel tbl i (s, called, out)
           = Some (Throws e (s', called @ drop i pre @ [ob], out'))"
  using assms
proof (induction fuel arbitrary: i s called out)
  case 0
  then show ?case by simp
next
  case (Suc fuel)
  have lt: "i < length (observers s)"
    using Suc.prems(2,5) by simp
  show ?case
  proof (cases "i = length pre")
    case True
    then have at: "observers s ! i = ob"
      using Suc.prems(2) by simp
    from Suc.prems(4) obtain st' where "update (tbl ob) (s, out) = Some (Throws e st')"
      unfolding throws_always_def by blast
    then obtain s' out' where "update (tbl ob) (s, out) = Some (Throws e (s', out'))"
      by (cases st') auto
    with lt at True show ?thesis by simp
  next
    case False
    with Suc.prems(5) have i: "i < length pre" by simp
    then have at: "observers s ! i = pre ! i"
      using Suc.prems(2) by (simp add: nth_append)
    have d: "drop i pre = pre ! i # drop (Suc i) pre"
      using i by (simp add: Cons_nth_drop_Suc)
    have "pre ! i \<in> set (drop i pre)"
      unfolding d by simp
    with Suc.prems(3) have "returns_always (tbl (pre ! i))" by blast
    then obtain st' where "update (tbl (pre ! i)) (s, out) = Some (Returns st')"
      unfolding returns_always_def by blast
    then obtain s' out' where u: "update (tbl (pre ! i)) (s, out) = Some (Returns (s', out'))"
      by (cases st') auto
    have mem: "pre ! i \<in> set (observers s)"
      using Suc.prems(2) i by simp
    with Suc.prems(1) u have "observers (fst (final (Returns (s', out')))) = observers s"
      unfolding leaves_array_alone_def by blast
    then have same: "observers s' = observers s" by simp
    have q: "\<forall>x \<in> set (observers s'). leaves_array_alone (tbl x)"
      using Suc.prems(1) same by simp
    have o: "observers s' = pre @ ob # post"
      using same Suc.prems(2) by simp
    have r: "\<forall>x \<in> set (drop (Suc i) pre). returns_always (tbl x)"
      using Suc.prems(3) unfolding d by simp
    have le: "Suc i \<le> length pre" using i by simp
    have f: "length pre - Suc i < fuel" using Suc.prems(6) i by simp
    from Suc.IH [OF q o r Suc.prems(4) le f, of "called @ [pre ! i]" out']
    obtain s'' out'' where
      "notify_loop fuel tbl (Suc i) (s', called @ [pre ! i], out')
         = Some (Throws e (s'', (called @ [pre ! i]) @ drop (Suc i) pre @ [ob], out''))"
      by blast
    with lt at u show ?thesis
      by (simp add: d)
  qed
qed


lemma source_observers_are_quiet:
  "leaves_array_alone ConcreteObserverA" "finishes ConcreteObserverA"
  "leaves_array_alone ConcreteObserverB" "finishes ConcreteObserverB"
  "leaves_array_alone failing_observer" "finishes failing_observer"
  by (auto simp: leaves_array_alone_def finishes_def ConcreteObserverA_def
      ConcreteObserverB_def failing_observer_def split: if_splits)

lemma demo_observers_quiet:
  "leaves_array_alone (demo_observers 0)" "finishes (demo_observers 0)"
  "leaves_array_alone (demo_observers 1)" "finishes (demo_observers 1)"
  "leaves_array_alone (demo_observers 2)" "finishes (demo_observers 2)"
  by (simp_all add: demo_observers_def source_observers_are_quiet)

lemma source_observers_return:
  "returns_always ConcreteObserverA" "returns_always ConcreteObserverB"
  "throws_always failing_observer (JsError ''Error'' ''listener failed'')"
  by (auto simp: returns_always_def throws_always_def ConcreteObserverA_def
      ConcreteObserverB_def failing_observer_def)

lemma demo_observers_return:
  "returns_always (demo_observers 1)" "returns_always (demo_observers 2)"
  "throws_always (demo_observers 0) (JsError ''Error'' ''listener failed'')"
  by (simp_all add: demo_observers_def source_observers_return)











text \<open>
  C4, as stated, fails: with a throwing observer attached first and a
  \<^verbatim>\<open>ConcreteObserverA\<close> attached second, \<^verbatim>\<open>notify\<close> calls the first
  observer only, and the error reaches the caller of \<^verbatim>\<open>notify\<close>.
\<close>

theorem throwing_listener_stops_delivery:
  "notify 10 demo_observers (fst (attach 1 (attach 0 (ConcreteSubject_new, [])))) []
     = Some (Throws (JsError ''Error'' ''listener failed'')
         (\<lparr>subject_state = None, observers = [0, 1]\<rparr>, [0],
          [(INFO, ''Subject: Notifying observers...'')]))"
  by code_simp

text \<open>
  C4, amended. Nothing catches an observer's error.
  \<^item> If the update of the observer the loop has reached throws, the notification ends
    there with that error: no further observer is called.
  \<^item> So when \<^verbatim>\<open>notify\<close> throws, the error is the one the observer called last
    threw, and the subject and the console are as that update left them.
  \<^item> If moreover no observer of the array changes the array in its update (as neither
    class of the source does), the observers called are those attached before the
    failing one, in attachment order, and the failing one; none attached after it.
  \<^item> And under the same condition the notification does end so: if the updates of the
    observers attached before one whose update throws \<open>e\<close> all return, then
    \<^verbatim>\<open>notify\<close> throws \<open>e\<close>, having called those and the failing one.
\<close>

theorem throwing_listener_aborts_notify:
  "(i < length (observers s)
      \<and> update (tbl (observers s ! i)) (s, out) = Some (Throws e (s', out'))
      \<longrightarrow> notify_loop (Suc fuel) tbl i (s, called, out)
            = Some (Throws e (s', called @ [observers s ! i], out')))
   \<and> (notify fuel tbl s0 out0 = Some (Throws e (s', called', out'))
      \<longrightarrow> (\<exists>pre ob s1 out1. called' = pre @ [ob]
            \<and> update (tbl ob) (s1, out1) = Some (Throws e (s', out'))))
   \<and> ((\<forall>x \<in> set (observers s0). leaves_array_alone (tbl x))
        \<and> notify fuel tbl s0 out0 = Some (Throws e (s', called', out'))
      \<longrightarrow> (\<exists>pre ob post. observers s0 = pre @ ob # post \<and> called' = pre @ [ob]))
   \<and> ((\<forall>x \<in> set (observers s0). leaves_array_alone (tbl x))
        \<and> observers s0 = before @ thrower # behind
        \<and> (\<forall>x \<in> set before. returns_always (tbl x))
        \<and> throws_always (tbl thrower) e
        \<and> length before < fuel
      \<longrightarrow> (\<exists>s1 out1. notify fuel tbl s0 out0
             = Some (Throws e (s1, before @ [thrower], out1))))"
proof (intro conjI impI)
  assume "i < length (observers s)
      \<and> update (tbl (observers s ! i)) (s, out) = Some (Throws e (s', out'))"
  then show "notify_loop (Suc fuel) tbl i (s, called, out)
            = Some (Throws e (s', called @ [observers s ! i], out'))"
    by simp
next
  assume "notify fuel tbl s0 out0 = Some (Throws e (s', called', out'))"
  from notify_loop_throws [OF this [unfolded notify_def]]
  show "\<exists>pre ob s1 out1. called' = pre @ [ob]
            \<and> update (tbl ob) (s1, out1) = Some (Throws e (s', out'))"
    by simp
next
  assume a: "(\<forall>x \<in> set (observers s0). leaves_array_alone (tbl x))
        \<and> notify fuel tbl s0 out0 = Some (Throws e (s', called', out'))"
  then have run: "notify_loop fuel tbl 0 (s0, [], log ''Subject: Notifying observers...'' INFO out0)
      = Some (Throws e (s', called', out'))"
    by (simp add: notify_def)
  from notify_loop_quiet [OF _ run] a obtain n where
    n: "called' = take n (observers s0)"
    by (auto simp: called_by_def)
  from notify_loop_throws [OF run] obtain pre ob where p: "called' = pre @ [ob]"
    by auto
  have "observers s0 = called' @ drop n (observers s0)"
    unfolding n by simp
  then have "observers s0 = pre @ ob # drop n (observers s0) \<and> called' = pre @ [ob]"
    using p by simp
  then show "\<exists>pre ob post. observers s0 = pre @ ob # post \<and> called' = pre @ [ob]"
    by blast
next
  assume a: "(\<forall>x \<in> set (observers s0). leaves_array_alone (tbl x))
        \<and> observers s0 = before @ thrower # behind
        \<and> (\<forall>x \<in> set before. returns_always (tbl x))
        \<and> throws_always (tbl thrower) e
        \<and> length before < fuel"
  then have q: "\<forall>x \<in> set (observers s0). leaves_array_alone (tbl x)"
    and o: "observers s0 = before @ thrower # behind"
    and r: "\<forall>x \<in> set (drop 0 before). returns_always (tbl x)"
    and th: "throws_always (tbl thrower) e"
    and f: "length before - 0 < fuel"
    by simp_all
  from notify_loop_reaches [OF q o r th _ f, of "[]" "log ''Subject: Notifying observers...'' INFO out0"]
  show "\<exists>s1 out1. notify fuel tbl s0 out0 = Some (Throws e (s1, before @ [thrower], out1))"
    by (simp add: notify_def)
qed

theorem throwing_listener_aborts_notify_witness:
  "leaves_array_alone (demo_observers 1) \<and> leaves_array_alone (demo_observers 0)
   \<and> leaves_array_alone (demo_observers 2)
   \<and> notify 5 demo_observers \<lparr>subject_state = Some 3, observers = [1, 0, 2]\<rparr> []
     = Some (Throws (JsError ''Error'' ''listener failed'')
         (\<lparr>subject_state = Some 3, observers = [1, 0, 2]\<rparr>, [1, 0],
          [(INFO, ''Subject: Notifying observers...''),
           (INFO, ''ConcreteObserverA: Reacted to the event.'')]))
   \<and> (\<exists>pre ob post. observers \<lparr>subject_state = Some 3, observers = [1, 0, 2]\<rparr> = pre @ ob # post
        \<and> [1, 0] = pre @ [ob])
   \<and> notify_loop (Suc 0) demo_observers 1
       (\<lparr>subject_state = Some 3, observers = [1, 0, 2]\<rparr>, [1], [])
     = Some (Throws (JsError ''Error'' ''listener failed'')
         (\<lparr>subject_state = Some 3, observers = [1, 0, 2]\<rparr>, [1] @ [0], []))
   \<and> returns_always (demo_observers 1)
   \<and> throws_always (demo_observers 0) (JsError ''Error'' ''listener failed'')
   \<and> (\<exists>s1 out1. notify 5 demo_observers \<lparr>subject_state = Some 3, observers = [1, 0, 2]\<rparr> []
        = Some (Throws (JsError ''Error'' ''listener failed'') (s1, [1] @ [0], out1)))"
proof -
  let ?s = "\<lparr>subject_state = Some 3, observers = [1, 0, 2]\<rparr>"
  let ?e = "JsError ''Error'' ''listener failed''"
  let ?out = "[(INFO, ''Subject: Notifying observers...''),
           (INFO, ''ConcreteObserverA: Reacted to the event.'')]"
  have run: "notify 5 demo_observers ?s [] = Some (Throws ?e (?s, [1, 0], ?out))"
    by code_simp
  have q: "\<forall>x \<in> set (observers ?s). leaves_array_alone (demo_observers x)"
    by (simp add: demo_observers_def source_observers_are_quiet)
  have u: "1 < length (observers ?s)
      \<and> update (demo_observers (observers ?s ! 1)) (?s, []) = Some (Throws ?e (?s, []))"
    by (simp add: demo_observers_def failing_observer_def)
  note w = throwing_listener_aborts_notify
    [where tbl = demo_observers and ?s0.0 = ?s and fuel = 5 and ?out0.0 = "[]" and e = ?e
       and s' = ?s and called' = "[1, 0]" and out' = ?out]
  note w1 = throwing_listener_aborts_notify
    [where tbl = demo_observers and s = ?s and i = 1 and out = "[]" and e = ?e
       and s' = ?s and out' = "[]" and fuel = 0 and called = "[1]"]
  from w q run have dec: "\<exists>pre ob post. observers ?s = pre @ ob # post \<and> [1, 0] = pre @ [ob]"
    by blast
  from w1 u have step: "notify_loop (Suc 0) demo_observers 1 (?s, [1], [])
      = Some (Throws ?e (?s, [1] @ [observers ?s ! 1], []))"
    by blast
  then have step': "notify_loop (Suc 0) demo_observers 1 (?s, [1], [])
      = Some (Throws ?e (?s, [1] @ [0], []))"
    by simp
  have o: "observers ?s = [1] @ 0 # [2]"
    by simp
  have r: "\<forall>x \<in> set [1]. returns_always (demo_observers x)"
    by (simp add: demo_observers_def source_observers_return)
  have len: "length [1::nat] < 5"
    by simp
  note w2 = throwing_listener_aborts_notify
    [where tbl = demo_observers and ?s0.0 = ?s and fuel = 5 and ?out0.0 = "[]" and e = ?e
       and before = "[1]" and thrower = 0 and behind = "[2]"]
  from w2 q o r demo_observers_return(3) len
  have reach: "\<exists>s1 out1. notify 5 demo_observers ?s [] = Some (Throws ?e (s1, [1] @ [0], out1))"
    by blast
  from demo_observers_quiet(3,1,5) run dec step' demo_observers_return(1,3) reach show ?thesis
    by blast
qed







section \<open>Properties of the state pattern\<close>

text \<open>Facts about the document's handlers and about the two context classes.\<close>

lemma this_document_ok:
  assumes "doc_backref_ok \<sigma> d" "document_class \<sigma> d = Some k"
  shows "\<exists>dob. documents \<sigma> d = Some dob
           \<and> this_document (doc_state dob) \<sigma> = Some (k, d, doc_name dob)"
  using assms
  by (auto simp: doc_backref_ok_def document_class_def this_document_def
      split: option.splits)

lemma changeState_to_new:
  assumes "documents \<sigma> d = Some dob" "doc_states \<sigma> (doc_state dob) = Some cur"
  shows "\<exists>\<sigma>'. (case new_DocumentState k' \<sigma> of (s', \<sigma>1) \<Rightarrow> changeState d s' \<sigma>1) = Returns \<sigma>'
           \<and> doc_backref_ok \<sigma>' d \<and> document_class \<sigma>' d = Some k'"
  using assms
  by (auto simp: new_DocumentState_def changeState_def doc_backref_ok_def document_class_def
      doc_log_def split: option.splits)

lemma doc_log_fields [simp]:
  "documents (doc_log m \<sigma>) = documents \<sigma>"
  "doc_states (doc_log m \<sigma>) = doc_states \<sigma>"
  "doc_next_ref (doc_log m \<sigma>) = doc_next_ref \<sigma>"
  "doc_console (doc_log m \<sigma>) = doc_console \<sigma> @ [(INFO, m)]"
  by (simp_all add: doc_log_def log_def)

lemma doc_log_console: "doc_log m \<sigma> = \<sigma>\<lparr>doc_console := doc_console \<sigma> @ [(INFO, m)]\<rparr>"
  by (simp add: doc_log_def log_def)

lemma request_without_rule:
  assumes "doc_backref_ok \<sigma> d" "document_class \<sigma> d = Some k" "transition_rule k trig = None"
  shows "\<exists>line. Document_request trig d \<sigma>
           = Returns (\<sigma>\<lparr>doc_console := doc_console \<sigma> @ [(INFO, line)]\<rparr>)"
proof -
  from this_document_ok [OF assms(1,2)] obtain dob where
    dob: "documents \<sigma> d = Some dob"
      "this_document (doc_state dob) \<sigma> = Some (k, d, doc_name dob)"
    by blast
  show ?thesis
    using assms(3)
    by (cases k; cases trig;
        simp add: Document_publish_def Document_review_def Document_reject_def
          DocumentState_publish_def DocumentState_review_def DocumentState_reject_def
          dob doc_log_console;
        blast)
qed

lemma request_with_rule:
  assumes "doc_backref_ok \<sigma> d" "document_class \<sigma> d = Some k" "transition_rule k trig = Some k'"
  shows "\<exists>\<sigma>'. Document_request trig d \<sigma> = Returns \<sigma>'
           \<and> doc_backref_ok \<sigma>' d \<and> document_class \<sigma>' d = Some k'"
proof -
  from this_document_ok [OF assms(1,2)] obtain dob where
    dob: "documents \<sigma> d = Some dob"
      "this_document (doc_state dob) \<sigma> = Some (k, d, doc_name dob)"
    by blast
  from assms(1) dob(1) obtain cur where cur: "doc_states \<sigma> (doc_state dob) = Some cur"
    by (auto simp: doc_backref_ok_def split: option.splits)
  have step1: "\<And>m. \<exists>\<sigma>'. (case new_DocumentState k' (doc_log m \<sigma>) of
                 (s', \<sigma>1) \<Rightarrow> changeState d s' \<sigma>1) = Returns \<sigma>'
           \<and> doc_backref_ok \<sigma>' d \<and> document_class \<sigma>' d = Some k'"
    using changeState_to_new [of "doc_log _ \<sigma>" d dob cur k'] dob(1) cur by simp
  have step2: "\<And>m n. \<exists>\<sigma>'. (case new_DocumentState k' (doc_log m (doc_log n \<sigma>)) of
                 (s', \<sigma>1) \<Rightarrow> changeState d s' \<sigma>1) = Returns \<sigma>'
           \<and> doc_backref_ok \<sigma>' d \<and> document_class \<sigma>' d = Some k'"
    using changeState_to_new [of "doc_log _ (doc_log _ \<sigma>)" d dob cur k'] dob(1) cur by simp
  show ?thesis
    using assms(3) step1 step2
    by (cases k; cases trig)
      (simp_all add: Document_publish_def Document_review_def Document_reject_def
        DocumentState_publish_def DocumentState_review_def DocumentState_reject_def dob)
qed

lemma transitionTo_establishes:
  assumes "states S s \<noteq> None"
  shows "\<exists>S'. transitionTo c s S = Returns S' \<and> contexts S' c = Some s \<and> backref_ok S' c
           \<and> current_class S' c = map_option class_of_state (states S s)"
  using assms by (auto simp: transitionTo_def backref_ok_def current_class_def)

lemma Context_new_establishes:
  assumes "states S s \<noteq> None"
  shows "\<exists>S'. Context_new s S = Returns (next_ref S, S') \<and> contexts S' (next_ref S) = Some s
           \<and> backref_ok S' (next_ref S)"
proof -
  have "states (S\<lparr>next_ref := Suc (next_ref S)\<rparr>) s \<noteq> None"
    using assms by simp
  from transitionTo_establishes [OF this, of "next_ref S"] show ?thesis
    by (auto simp: Context_new_def)
qed

lemma transition_to_new_state:
  "\<exists>S'. (case new_State k S of (b, S2) \<Rightarrow> transitionTo c b S2) = Returns S'
         \<and> backref_ok S' c \<and> current_class S' c = Some k"
  by (simp add: new_State_def transitionTo_def backref_ok_def current_class_def)

lemma request1_preserves:
  assumes "backref_ok S c"
  shows "\<exists>S'. request1 c S = Returns S' \<and> backref_ok S' c
           \<and> (current_class S c = Some ConcreteStateA \<longrightarrow> current_class S' c = Some ConcreteStateB)"
proof -
  from assms obtain s ob where
    s: "contexts S c = Some s" "states S s = Some ob" "state_context ob = Some c"
    by (auto simp: backref_ok_def split: option.splits)
  show ?thesis
  proof (cases "class_of_state ob")
    case ConcreteStateA
    let ?S1 = "S\<lparr>ctx_console :=
        log ''ConcreteStateA wants to change the state of the context.'' INFO
          (log ''ConcreteStateA handles request1.'' INFO (ctx_console S))\<rparr>"
    have "request1 c S = (case new_State ConcreteStateB ?S1 of (b, S2) \<Rightarrow> transitionTo c b S2)"
      by (simp add: request1_def handle1_def s ConcreteStateA Let_def)
    with transition_to_new_state [where k = ConcreteStateB and S = ?S1 and c = c] show ?thesis
      by auto
  next
    case ConcreteStateB
    have "request1 c S = Returns (S\<lparr>ctx_console :=
        log ''ConcreteStateB handles request1.'' INFO (ctx_console S)\<rparr>)"
      by (simp add: request1_def handle1_def s ConcreteStateB)
    then show ?thesis
      using s ConcreteStateB by (simp add: backref_ok_def current_class_def)
  qed
qed

lemma request2_preserves:
  assumes "backref_ok S c"
  shows "\<exists>S'. request2 c S = Returns S' \<and> backref_ok S' c
           \<and> (current_class S c = Some ConcreteStateB \<longrightarrow> current_class S' c = Some ConcreteStateA)"
proof -
  from assms obtain s ob where
    s: "contexts S c = Some s" "states S s = Some ob" "state_context ob = Some c"
    by (auto simp: backref_ok_def split: option.splits)
  show ?thesis
  proof (cases "class_of_state ob")
    case ConcreteStateB
    let ?S1 = "S\<lparr>ctx_console :=
        log ''ConcreteStateB wants to change the state of the context.'' INFO
          (log ''ConcreteStateB handles request2.'' INFO (ctx_console S))\<rparr>"
    have "request2 c S = (case new_State ConcreteStateA ?S1 of (a, S2) \<Rightarrow> transitionTo c a S2)"
      by (simp add: request2_def handle2_def s ConcreteStateB Let_def)
    with transition_to_new_state [where k = ConcreteStateA and S = ?S1 and c = c] show ?thesis
      by auto
  next
    case ConcreteStateA
    have "request2 c S = Returns (S\<lparr>ctx_console :=
        log ''ConcreteStateA handles request2.'' INFO (ctx_console S)\<rparr>)"
      by (simp add: request2_def handle2_def s ConcreteStateA)
    then show ?thesis
      using s ConcreteStateA by (simp add: backref_ok_def current_class_def)
  qed
qed

lemma Document_new_establishes:
  "doc_backref_ok (snd (Document_new nm D)) (fst (Document_new nm D))
   \<and> document_class (snd (Document_new nm D)) (fst (Document_new nm D)) = Some DraftState"
  by (simp add: Document_new_def new_DocumentState_def doc_backref_ok_def document_class_def
      Let_def)

lemma changeState_establishes:
  assumes "documents D d = Some dob" "doc_states D (doc_state dob) \<noteq> None"
    "doc_states D t \<noteq> None"
  shows "\<exists>D'. changeState d t D = Returns D' \<and> doc_backref_ok D' d
           \<and> map_option doc_state (documents D' d) = Some t"
  using assms by (auto simp: changeState_def doc_backref_ok_def)

lemma Document_request_preserves:
  assumes "doc_backref_ok D d"
  shows "\<exists>D'. Document_request trig d D = Returns D' \<and> doc_backref_ok D' d"
proof -
  from assms obtain k where k: "document_class D d = Some k"
    by (auto simp: doc_backref_ok_def document_class_def split: option.splits)
  show ?thesis
  proof (cases "transition_rule k trig")
    case None
    from request_without_rule [OF assms k None] obtain line where
      "Document_request trig d D = Returns (D\<lparr>doc_console := doc_console D @ [(INFO, line)]\<rparr>)"
      by blast
    moreover have "doc_backref_ok (D\<lparr>doc_console := doc_console D @ [(INFO, line)]\<rparr>) d"
      using assms by (auto simp: doc_backref_ok_def split: option.splits)
    ultimately show ?thesis by blast
  next
    case (Some k')
    from request_with_rule [OF assms k Some] show ?thesis by blast
  qed
qed

text \<open>The definitions unfolded when a concrete store is evaluated.\<close>

lemmas doc_eval =
  demo_document_store_def moderated_document_store_def empty_document_store_def
  Document_new_def new_DocumentState_def changeState_def this_document_def
  Document_publish_def Document_review_def Document_reject_def
  DocumentState_publish_def DocumentState_review_def DocumentState_reject_def
  doc_backref_ok_def document_class_def doc_log_def log_def Let_def

lemmas ctx_eval =
  one_state_store_def demo_context_store_def empty_context_store_def new_State_def
  Context_new_def transitionTo_def request1_def request2_def handle1_def handle2_def
  backref_ok_def current_class_def log_def Let_def

text \<open>
  C7, as stated, fails: the demonstration's document is in \<^verbatim>\<open>DraftState\<close>, the
  table has no rule for (Draft, reject), and \<^verbatim>\<open>reject()\<close> does not fail: it writes
  a line to the log and returns. No \<^verbatim>\<open>InvalidTransition\<close> is thrown.
\<close>

theorem reject_in_draft_returns:
  "document_class demo_document_store 0 = Some DraftState
   \<and> transition_rule DraftState Reject = None
   \<and> Document_reject 0 demo_document_store
     = Returns (demo_document_store\<lparr>doc_console := doc_console demo_document_store
         @ [(INFO, doc_prefix ''Design Patterns Article''
              @ '': Draft cannot be rejected yet. It needs to be reviewed first.'')]\<rparr>)"
  by (simp add: doc_eval)

text \<open>
  C7, amended. Let the document's current state object refer back to the document and
  be of class \<open>k\<close>. For every trigger for which the transition table has no rule for
  (\<open>k\<close>, trigger), the request returns normally (no error is thrown); it writes one INFO
  line to the log and changes nothing else, so the current state after the call is the
  current state before it. The table is the code's: where it has a rule, the request
  returns with the current state of the rule's target class.
\<close>

theorem request_without_rule_is_logged_noop:
  assumes "doc_backref_ok \<sigma> d" and "document_class \<sigma> d = Some k"
  shows "(transition_rule k trig = None \<longrightarrow>
            (\<exists>line. Document_request trig d \<sigma>
               = Returns (\<sigma>\<lparr>doc_console := doc_console \<sigma> @ [(INFO, line)]\<rparr>))
            \<and> thrown (Document_request trig d \<sigma>) = None
            \<and> documents (final (Document_request trig d \<sigma>)) = documents \<sigma>
            \<and> doc_states (final (Document_request trig d \<sigma>)) = doc_states \<sigma>
            \<and> document_class (final (Document_request trig d \<sigma>)) d = Some k)
         \<and> (\<forall>k'. transition_rule k trig = Some k' \<longrightarrow>
            thrown (Document_request trig d \<sigma>) = None
            \<and> document_class (final (Document_request trig d \<sigma>)) d = Some k')"
proof (intro conjI impI allI)
  assume none: "transition_rule k trig = None"
  from request_without_rule [OF assms none] obtain line where
    r: "Document_request trig d \<sigma> = Returns (\<sigma>\<lparr>doc_console := doc_console \<sigma> @ [(INFO, line)]\<rparr>)"
    by blast
  show "\<exists>line. Document_request trig d \<sigma>
               = Returns (\<sigma>\<lparr>doc_console := doc_console \<sigma> @ [(INFO, line)]\<rparr>)"
    using r by blast
  show "thrown (Document_request trig d \<sigma>) = None"
    by (simp add: r)
  show "documents (final (Document_request trig d \<sigma>)) = documents \<sigma>"
    by (simp add: r)
  show "doc_states (final (Document_request trig d \<sigma>)) = doc_states \<sigma>"
    by (simp add: r)
  show "document_class (final (Document_request trig d \<sigma>)) d = Some k"
    using assms(2) by (simp add: r document_class_def split: option.splits)
next
  fix k' assume some: "transition_rule k trig = Some k'"
  from request_with_rule [OF assms some] obtain \<sigma>' where
    r: "Document_request trig d \<sigma> = Returns \<sigma>'" "document_class \<sigma>' d = Some k'"
    by blast
  show "thrown (Document_request trig d \<sigma>) = None"
    by (simp add: r)
  show "document_class (final (Document_request trig d \<sigma>)) d = Some k'"
    by (simp add: r)
qed

theorem request_without_rule_is_logged_noop_witness:
  "doc_backref_ok moderated_document_store 0
   \<and> document_class moderated_document_store 0 = Some ModerationState
   \<and> transition_rule ModerationState Publish = None
   \<and> thrown (Document_request Publish 0 moderated_document_store) = None
   \<and> document_class (final (Document_request Publish 0 moderated_document_store)) 0
     = Some ModerationState
   \<and> doc_backref_ok demo_document_store 0
   \<and> document_class demo_document_store 0 = Some DraftState
   \<and> transition_rule DraftState Publish = Some ModerationState
   \<and> document_class (final (Document_request Publish 0 demo_document_store)) 0
     = Some ModerationState"
  using
    request_without_rule_is_logged_noop
      [of moderated_document_store 0 ModerationState Publish]
    request_without_rule_is_logged_noop
      [of demo_document_store 0 DraftState Publish]
  by (simp add: doc_eval)

text \<open>
  C10. After construction and after every transition the object installed as the
  current state refers back to its owner, and handlers dispatched through the owner keep
  it so:
  \<^item> \<^verbatim>\<open>new Context(s)\<close> and \<^verbatim>\<open>transitionTo(s)\<close>, given a state object \<open>s\<close>,
    return with \<open>s\<close> installed and \<open>s\<close>'s \<^verbatim>\<open>context\<close> set to the context;
  \<^item> \<^verbatim>\<open>request1\<close> and \<^verbatim>\<open>request2\<close> on a context whose current state refers
    back to it return normally (the back reference is there to be used) and leave the
    context with a current state that refers back to it; from \<^verbatim>\<open>ConcreteStateA\<close>
    \<^verbatim>\<open>request1\<close> moves that same context to a \<^verbatim>\<open>ConcreteStateB\<close>, and from
    \<^verbatim>\<open>ConcreteStateB\<close> \<^verbatim>\<open>request2\<close> moves it to a \<^verbatim>\<open>ConcreteStateA\<close>;
  \<^item> the same for the document: \<^verbatim>\<open>new Document(name)\<close> and
    \<^verbatim>\<open>changeState(t)\<close> install a state object whose \<^verbatim>\<open>document\<close> is the
    document, and \<^verbatim>\<open>publish\<close>, \<^verbatim>\<open>review\<close> and \<^verbatim>\<open>reject\<close> return normally
    and preserve this.
\<close>

theorem current_state_refers_back_to_its_owner:
  "(states S s \<noteq> None \<longrightarrow>
      (\<exists>S'. Context_new s S = Returns (next_ref S, S') \<and> contexts S' (next_ref S) = Some s
            \<and> backref_ok S' (next_ref S)))
   \<and> (states S s \<noteq> None \<longrightarrow>
      (\<exists>S'. transitionTo c s S = Returns S' \<and> contexts S' c = Some s \<and> backref_ok S' c))
   \<and> (backref_ok S c \<longrightarrow>
      (\<exists>S'. request1 c S = Returns S' \<and> backref_ok S' c
            \<and> (current_class S c = Some ConcreteStateA
                 \<longrightarrow> current_class S' c = Some ConcreteStateB)))
   \<and> (backref_ok S c \<longrightarrow>
      (\<exists>S'. request2 c S = Returns S' \<and> backref_ok S' c
            \<and> (current_class S c = Some ConcreteStateB
                 \<longrightarrow> current_class S' c = Some ConcreteStateA)))
   \<and> doc_backref_ok (snd (Document_new nm D)) (fst (Document_new nm D))
   \<and> (documents D d = Some dob \<and> doc_states D (doc_state dob) \<noteq> None
        \<and> doc_states D t \<noteq> None \<longrightarrow>
      (\<exists>D'. changeState d t D = Returns D' \<and> doc_backref_ok D' d
            \<and> map_option doc_state (documents D' d) = Some t))
   \<and> (doc_backref_ok D d \<longrightarrow>
      (\<exists>D'. Document_request trig d D = Returns D' \<and> doc_backref_ok D' d))"
proof (intro conjI impI)
  assume "states S s \<noteq> None"
  then show "\<exists>S'. Context_new s S = Returns (next_ref S, S')
      \<and> contexts S' (next_ref S) = Some s \<and> backref_ok S' (next_ref S)"
    by (rule Context_new_establishes)
next
  assume "states S s \<noteq> None"
  from transitionTo_establishes [OF this, of c]
  show "\<exists>S'. transitionTo c s S = Returns S' \<and> contexts S' c = Some s \<and> backref_ok S' c"
    by blast
next
  assume "backref_ok S c"
  then show "\<exists>S'. request1 c S = Returns S' \<and> backref_ok S' c
      \<and> (current_class S c = Some ConcreteStateA \<longrightarrow> current_class S' c = Some ConcreteStateB)"
    by (rule request1_preserves)
next
  assume "backref_ok S c"
  then show "\<exists>S'. request2 c S = Returns S' \<and> backref_ok S' c
      \<and> (current_class S c = Some ConcreteStateB \<longrightarrow> current_class S' c = Some ConcreteStateA)"
    by (rule request2_preserves)
next
  show "doc_backref_ok (snd (Document_new nm D)) (fst (Document_new nm D))"
    using Document_new_establishes [of nm D] by blast
next
  assume "documents D d = Some dob \<and> doc_states D (doc_state dob) \<noteq> None
      \<and> doc_states D t \<noteq> None"
  then show "\<exists>D'. changeState d t D = Returns D' \<and> doc_backref_ok D' d
      \<and> map_option doc_state (documents D' d) = Some t"
    using changeState_establishes [of D d dob t] by blast
next
  assume "doc_backref_ok D d"
  then show "\<exists>D'. Document_request trig d D = Returns D' \<and> doc_backref_ok D' d"
    by (rule Document_request_preserves)
qed

theorem current_state_refers_back_to_its_owner_witness:
  "states one_state_store 0 \<noteq> None
   \<and> thrown (Context_new 0 one_state_store) = None
   \<and> thrown (transitionTo 7 0 one_state_store) = None
   \<and> backref_ok (final (transitionTo 7 0 one_state_store)) 7
   \<and> backref_ok demo_context_store 1
   \<and> current_class demo_context_store 1 = Some ConcreteStateA
   \<and> thrown (request1 1 demo_context_store) = None
   \<and> backref_ok (final (request1 1 demo_context_store)) 1
   \<and> current_class (final (request1 1 demo_context_store)) 1 = Some ConcreteStateB
   \<and> thrown (request2 1 (final (request1 1 demo_context_store))) = None
   \<and> backref_ok (final (request2 1 (final (request1 1 demo_context_store)))) 1
   \<and> current_class (final (request2 1 (final (request1 1 demo_context_store)))) 1
     = Some ConcreteStateA
   \<and> doc_backref_ok demo_document_store 0
   \<and> documents demo_document_store 0
     = Some \<lparr>doc_name = ''Design Patterns Article'', doc_state = 1\<rparr>
   \<and> doc_states demo_document_store 1 \<noteq> None
   \<and> doc_backref_ok (final (changeState 0 1 demo_document_store)) 0
   \<and> doc_backref_ok (final (Document_request Publish 0 demo_document_store)) 0"
  using
    current_state_refers_back_to_its_owner
      [where S = one_state_store and s = 0 and c = 7 and nm = "''Design Patterns Article''"
         and D = empty_document_store]
    current_state_refers_back_to_its_owner
      [where S = demo_context_store and c = 1
         and D = demo_document_store and d = 0
         and dob = "\<lparr>doc_name = ''Design Patterns Article'', doc_state = 1\<rparr>"
         and t = 1 and trig = Publish]
    current_state_refers_back_to_its_owner
      [where S = "final (request1 1 demo_context_store)" and c = 1]
  by (simp add: ctx_eval doc_eval)

section \<open>Properties of the mediators\<close>

text \<open>Facts about the chat room's mutually recursive calls.\<close>

lemma chain_ok_Returns [simp]: "chain_ok \<sigma> (Returns \<sigma>)"
  by (simp add: chain_ok_def only_grown_def no_error_of_the_router_def)

lemma chain_ok_TypeError [simp]: "chain_ok \<sigma> (Throws TypeError \<sigma>)"
  by (simp add: chain_ok_def only_grown_def no_error_of_the_router_def TypeError_def)

lemma chain_ok_RangeError [simp]: "chain_ok \<sigma> (Throws RangeError \<sigma>)"
  by (simp add: chain_ok_def only_grown_def no_error_of_the_router_def RangeError_def)

lemma chain_ok_then:
  assumes "only_grown \<sigma> (Returns \<sigma>1)" and "chain_ok \<sigma>1 res"
  shows "chain_ok \<sigma> res"
proof -
  from assms(1) have
    c: "prefix (chat_console \<sigma>) (chat_console \<sigma>1)" and
    d: "prefix (send_depths \<sigma>) (send_depths \<sigma>1)" and
    u: "user_objs \<sigma>1 = user_objs \<sigma>" and r: "rooms \<sigma>1 = rooms \<sigma>"
    by (simp_all add: only_grown_def)
  from assms(2) have
    c1: "prefix (chat_console \<sigma>1) (chat_console (final res))" and
    d1: "prefix (send_depths \<sigma>1) (send_depths (final res))" and
    u1: "user_objs (final res) = user_objs \<sigma>1" and r1: "rooms (final res) = rooms \<sigma>1" and
    n1: "no_error_of_the_router \<sigma>1 res"
    by (simp_all add: chain_ok_def only_grown_def)
  have "only_grown \<sigma> res"
    unfolding only_grown_def
    using prefix_order.trans [OF c c1] prefix_order.trans [OF d d1] u u1 r r1 by simp
  moreover have "no_error_of_the_router \<sigma> res"
    using n1 unfolding no_error_of_the_router_def u .
  ultimately show ?thesis by (simp add: chain_ok_def)
qed

lemma logged_only_grown:
  "only_grown \<sigma> (Returns (\<sigma>\<lparr>chat_console := log m ty (chat_console \<sigma>)\<rparr>))"
  "only_grown \<sigma> (Returns (\<sigma>\<lparr>chat_console := log m ty (chat_console \<sigma>),
       send_depths := send_depths \<sigma> @ ds\<rparr>))"
  by (simp_all add: only_grown_def log_def)

lemma chain_ok_own_error:
  assumes "chain_ok \<sigma> (Returns \<sigma>')" and "user_objs \<sigma> u = Some uo"
    and "class_of_user uo = Responder f" and "snd (f sn msg) = Some e"
  shows "chain_ok \<sigma> (Throws e \<sigma>')"
  using assms unfolding chain_ok_def only_grown_def no_error_of_the_router_def
  by auto

lemma chat_calls_ok:
  "chain_ok \<sigma> (ChatRoom_send cap d room msg sender \<sigma>)"
  "chain_ok \<sigma>1 (forEach_user cap1 d1 us sn1 msg1 \<sigma>1)"
  "chain_ok \<sigma>2 (User_receive cap2 d2 u2 sn2 msg2 \<sigma>2)"
  "chain_ok \<sigma>3 (send_each cap3 d3 u3 ms \<sigma>3)"
  "chain_ok \<sigma>4 (User_send cap4 d4 u4 m4 \<sigma>4)"
proof (induction cap d room msg sender \<sigma> and cap1 d1 us sn1 msg1 \<sigma>1
    and cap2 d2 u2 sn2 msg2 \<sigma>2 and cap3 d3 u3 ms \<sigma>3 and cap4 d4 u4 m4 \<sigma>4
    rule: ChatRoom_send_forEach_user_User_receive_send_each_User_send.induct)
  case (1 cap d room msg sender \<sigma>)
  show ?case
  proof (cases "cap < d")
    case True
    then show ?thesis by (simp add: ChatRoom_send.simps)
  next
    case False
    show ?thesis
    proof (cases "user_objs \<sigma> sender")
      case None
      with False show ?thesis by (simp add: ChatRoom_send.simps)
    next
      case (Some su)
      show ?thesis
      proof (cases "rooms \<sigma> room")
        case None
        with False Some show ?thesis by (simp add: ChatRoom_send.simps)
      next
        case (Some us)
        let ?\<sigma>1 = "\<sigma>\<lparr> chat_console :=
                        log (''ChatRoom: Dispatching message from '' @ user_name su) INFO
                          (chat_console \<sigma>),
                      send_depths := send_depths \<sigma> @ [d] \<rparr>"
        have eq: "ChatRoom_send cap d room msg sender \<sigma>
            = forEach_user cap d us (user_name su) msg ?\<sigma>1"
          using False \<open>user_objs \<sigma> sender = Some su\<close> Some by (simp add: ChatRoom_send.simps)
        from "1.IH" [OF False \<open>user_objs \<sigma> sender = Some su\<close> Some]
        have "chain_ok ?\<sigma>1 (forEach_user cap d us (user_name su) msg ?\<sigma>1)" .
        with logged_only_grown(2) [of \<sigma>] show ?thesis
          unfolding eq by (rule chain_ok_then)
      qed
    qed
  qed
next
  case (2 cap d sn msg \<sigma>)
  then show ?case by simp
next
  case (3 cap d nm u rest sn msg \<sigma>)
  show ?case
  proof (cases "nm \<noteq> sn")
    case False
    with "3.IH"(3) show ?thesis by simp
  next
    case True
    from "3.IH"(1) [OF True] have g: "chain_ok \<sigma> (User_receive cap d u sn msg \<sigma>)" .
    show ?thesis
    proof (cases "User_receive cap d u sn msg \<sigma>")
      case (Throws e \<sigma>')
      with g True show ?thesis by simp
    next
      case (Returns \<sigma>')
      from "3.IH"(2) [OF True Returns]
      have "chain_ok \<sigma>' (forEach_user cap d rest sn msg \<sigma>')" .
      moreover from g Returns have "only_grown \<sigma> (Returns \<sigma>')"
        by (simp add: chain_ok_def)
      ultimately have "chain_ok \<sigma> (forEach_user cap d rest sn msg \<sigma>')"
        by (rule chain_ok_then [rotated])
      with True Returns show ?thesis by simp
    qed
  qed
next
  case (4 cap d u sn msg \<sigma>)
  show ?case
  proof (cases "user_objs \<sigma> u")
    case None
    then show ?thesis by (simp add: User_receive.simps)
  next
    case (Some uo)
    let ?\<sigma>1 = "\<sigma>\<lparr>chat_console :=
                 log (user_name uo @ '' received message from '' @ sn @ '': '' @ msg) INFO
                   (chat_console \<sigma>)\<rparr>"
    have g1: "only_grown \<sigma> (Returns ?\<sigma>1)"
      by (rule logged_only_grown(1))
    show ?thesis
    proof (cases "class_of_user uo")
      case ChatUser
      have "User_receive cap d u sn msg \<sigma> = Returns ?\<sigma>1"
        using Some ChatUser by (simp add: User_receive.simps)
      with g1 show ?thesis
        using chain_ok_then [OF g1 chain_ok_Returns] by simp
    next
      case (Responder f)
      from "4.IH" [OF Some refl Responder]
      have ih: "chain_ok ?\<sigma>1 (send_each cap d u (fst (f sn msg)) ?\<sigma>1)" .
      have g: "chain_ok \<sigma> (send_each cap d u (fst (f sn msg)) ?\<sigma>1)"
        using g1 ih by (rule chain_ok_then)
      show ?thesis
      proof (cases "send_each cap d u (fst (f sn msg)) ?\<sigma>1")
        case (Throws e \<sigma>')
        with g Some Responder show ?thesis by (simp add: User_receive.simps)
      next
        case (Returns \<sigma>')
        show ?thesis
        proof (cases "snd (f sn msg)")
          case None
          with g Returns Some Responder show ?thesis by (simp add: User_receive.simps)
        next
          case (Some e)
          from g Returns have "chain_ok \<sigma> (Returns \<sigma>')" by simp
          from chain_ok_own_error [OF this \<open>user_objs \<sigma> u = Some uo\<close> Responder Some]
          have "chain_ok \<sigma> (Throws e \<sigma>')" .
          with Returns Some \<open>user_objs \<sigma> u = Some uo\<close> Responder show ?thesis
            by (simp add: User_receive.simps)
        qed
      qed
    qed
  qed
next
  case (5 cap d u \<sigma>)
  then show ?case by simp
next
  case (6 cap d u m ms \<sigma>)
  from "6.IH"(1) have g: "chain_ok \<sigma> (User_send cap d u m \<sigma>)" .
  show ?case
  proof (cases "User_send cap d u m \<sigma>")
    case (Throws e \<sigma>')
    with g show ?thesis by simp
  next
    case (Returns \<sigma>')
    from "6.IH"(2) [OF Returns] have "chain_ok \<sigma>' (send_each cap d u ms \<sigma>')" .
    moreover from g Returns have "only_grown \<sigma> (Returns \<sigma>')"
      by (simp add: chain_ok_def)
    ultimately have "chain_ok \<sigma> (send_each cap d u ms \<sigma>')"
      by (rule chain_ok_then [rotated])
    with Returns show ?thesis by simp
  qed
next
  case (7 cap d u m \<sigma>)
  show ?case
  proof (cases "user_objs \<sigma> u")
    case None
    then show ?thesis by (simp add: User_send.simps)
  next
    case (Some uo)
    let ?\<sigma>1 = "\<sigma>\<lparr>chat_console :=
                 log (user_name uo @ '' sends: '' @ m) INFO (chat_console \<sigma>)\<rparr>"
    have g1: "only_grown \<sigma> (Returns ?\<sigma>1)"
      by (rule logged_only_grown(1))
    show ?thesis
    proof (cases "chatRoom uo")
      case None
      have "User_send cap d u m \<sigma> = Throws TypeError ?\<sigma>1"
        using Some None by (simp add: User_send.simps)
      then show ?thesis
        using chain_ok_then [OF g1 chain_ok_TypeError] by simp
    next
      case (Some room)
      from "7.IH" [OF \<open>user_objs \<sigma> u = Some uo\<close> refl Some]
      have "chain_ok ?\<sigma>1 (ChatRoom_send cap (Suc d) room m u ?\<sigma>1)" .
      with g1 have "chain_ok \<sigma> (ChatRoom_send cap (Suc d) room m u ?\<sigma>1)"
        by (rule chain_ok_then)
      then show ?thesis
        using \<open>user_objs \<sigma> u = Some uo\<close> Some by (simp add: User_send.simps)
    qed
  qed
qed

lemma User_send_step:
  assumes "user_objs \<sigma> u = Some uo" and "chatRoom uo = Some r"
  shows "\<exists>\<sigma>1. User_send cap d u m \<sigma> = ChatRoom_send cap (Suc d) r m u \<sigma>1
           \<and> user_objs \<sigma>1 = user_objs \<sigma> \<and> rooms \<sigma>1 = rooms \<sigma>
           \<and> send_depths \<sigma>1 = send_depths \<sigma>"
  by (rule exI [of _ "\<sigma>\<lparr>chat_console :=
        log (user_name uo @ '' sends: '' @ m) INFO (chat_console \<sigma>)\<rparr>"])
    (simp add: User_send.simps assms Let_def)

lemma ChatRoom_send_step:
  assumes "\<not> cap < d" and "user_objs \<sigma> sender = Some su" and "rooms \<sigma> room = Some us"
  shows "\<exists>\<sigma>2. ChatRoom_send cap d room msg sender \<sigma>
             = forEach_user cap d us (user_name su) msg \<sigma>2
           \<and> user_objs \<sigma>2 = user_objs \<sigma> \<and> rooms \<sigma>2 = rooms \<sigma>
           \<and> send_depths \<sigma>2 = send_depths \<sigma> @ [d]"
  by (rule exI [of _ "\<sigma>\<lparr> chat_console :=
        log (''ChatRoom: Dispatching message from '' @ user_name su) INFO (chat_console \<sigma>),
        send_depths := send_depths \<sigma> @ [d] \<rparr>"])
    (simp add: ChatRoom_send.simps assms)

lemma User_receive_step:
  assumes "user_objs \<sigma> u = Some uo" and "class_of_user uo = Responder f"
    and "f sn msg = (answers, None)"
  shows "\<exists>\<sigma>3. User_receive cap d u sn msg \<sigma> = send_each cap d u answers \<sigma>3
           \<and> user_objs \<sigma>3 = user_objs \<sigma> \<and> rooms \<sigma>3 = rooms \<sigma>
           \<and> send_depths \<sigma>3 = send_depths \<sigma>"
proof -
  let ?\<sigma>3 = "\<sigma>\<lparr>chat_console :=
        log (user_name uo @ '' received message from '' @ sn @ '': '' @ msg) INFO
          (chat_console \<sigma>)\<rparr>"
  have "User_receive cap d u sn msg \<sigma> = send_each cap d u answers ?\<sigma>3"
    by (cases "send_each cap d u answers ?\<sigma>3")
      (simp_all add: User_receive.simps assms Let_def)
  then show ?thesis by (intro exI [of _ ?\<sigma>3]) simp
qed

lemma pingpong_round:
  assumes "user_objs \<sigma> = user_objs pingpong_store" and "rooms \<sigma> = rooms pingpong_store"
    and "u = 1 \<or> u = 2" and "\<not> cap < Suc d"
  shows "\<exists>\<sigma>3. user_objs \<sigma>3 = user_objs \<sigma> \<and> rooms \<sigma>3 = rooms \<sigma>
           \<and> send_depths \<sigma>3 = send_depths \<sigma> @ [Suc d]
           \<and> User_send cap d u m \<sigma>
             = (if m = [] then Returns \<sigma>3 else User_send cap (Suc d) (3 - u) (tl m) \<sigma>3)"
proof -
  let ?alice = "\<lparr> user_name = ''Alice'', chatRoom = Some 0,
        class_of_user = Responder countdown \<rparr>"
  let ?bob = "\<lparr> user_name = ''Bob'', chatRoom = Some 0,
        class_of_user = Responder countdown \<rparr>"
  have users: "\<And>\<tau>. user_objs \<tau> = user_objs \<sigma> \<Longrightarrow>
      user_objs \<tau> 1 = Some ?alice \<and> user_objs \<tau> 2 = Some ?bob"
    by (simp add: assms(1) pingpong_store_def)
  have room: "\<And>\<tau>. rooms \<tau> = rooms \<sigma> \<Longrightarrow> rooms \<tau> 0 = Some [(''Alice'', 1), (''Bob'', 2)]"
    by (simp add: assms(2) pingpong_store_def)
  have answers: "\<And>sn. countdown sn m = ((if m = [] then [] else [tl m]), None)"
    by (simp add: countdown_def)
  from assms(3) show ?thesis
  proof
    assume u: "u = 1"
    from User_send_step [of \<sigma> 1 ?alice 0 cap d m] users [OF refl]
    obtain \<sigma>1 where s1: "User_send cap d 1 m \<sigma> = ChatRoom_send cap (Suc d) 0 m 1 \<sigma>1"
      "user_objs \<sigma>1 = user_objs \<sigma>" "rooms \<sigma>1 = rooms \<sigma>" "send_depths \<sigma>1 = send_depths \<sigma>"
      by auto
    from ChatRoom_send_step [OF assms(4), of \<sigma>1 1 ?alice 0 "[(''Alice'', 1), (''Bob'', 2)]" m]
      users [OF s1(2)] room [OF s1(3)]
    obtain \<sigma>2 where s2: "ChatRoom_send cap (Suc d) 0 m 1 \<sigma>1
        = forEach_user cap (Suc d) [(''Alice'', 1), (''Bob'', 2)] ''Alice'' m \<sigma>2"
      "user_objs \<sigma>2 = user_objs \<sigma>1" "rooms \<sigma>2 = rooms \<sigma>1"
      "send_depths \<sigma>2 = send_depths \<sigma>1 @ [Suc d]"
      by auto
    from User_receive_step [of \<sigma>2 2 ?bob countdown "''Alice''" m _ cap "Suc d"]
      users [of \<sigma>2] s2(2) s1(2) answers
    obtain \<sigma>3 where s3: "User_receive cap (Suc d) 2 ''Alice'' m \<sigma>2
        = send_each cap (Suc d) 2 (if m = [] then [] else [tl m]) \<sigma>3"
      "user_objs \<sigma>3 = user_objs \<sigma>2" "rooms \<sigma>3 = rooms \<sigma>2"
      "send_depths \<sigma>3 = send_depths \<sigma>2"
      by auto
    have "User_send cap d 1 m \<sigma>
        = (if m = [] then Returns \<sigma>3 else User_send cap (Suc d) 2 (tl m) \<sigma>3)"
      unfolding s1(1) s2(1)
      by (cases "User_send cap (Suc d) 2 (tl m) \<sigma>3") (simp_all add: s3(1))
    with s1 s2 s3 u show ?thesis by auto
  next
    assume u: "u = 2"
    from User_send_step [of \<sigma> 2 ?bob 0 cap d m] users [OF refl]
    obtain \<sigma>1 where s1: "User_send cap d 2 m \<sigma> = ChatRoom_send cap (Suc d) 0 m 2 \<sigma>1"
      "user_objs \<sigma>1 = user_objs \<sigma>" "rooms \<sigma>1 = rooms \<sigma>" "send_depths \<sigma>1 = send_depths \<sigma>"
      by auto
    from ChatRoom_send_step [OF assms(4), of \<sigma>1 2 ?bob 0 "[(''Alice'', 1), (''Bob'', 2)]" m]
      users [OF s1(2)] room [OF s1(3)]
    obtain \<sigma>2 where s2: "ChatRoom_send cap (Suc d) 0 m 2 \<sigma>1
        = forEach_user cap (Suc d) [(''Alice'', 1), (''Bob'', 2)] ''Bob'' m \<sigma>2"
      "user_objs \<sigma>2 = user_objs \<sigma>1" "rooms \<sigma>2 = rooms \<sigma>1"
      "send_depths \<sigma>2 = send_depths \<sigma>1 @ [Suc d]"
      by auto
    from User_receive_step [of \<sigma>2 1 ?alice countdown "''Bob''" m _ cap "Suc d"]
      users [of \<sigma>2] s2(2) s1(2) answers
    obtain \<sigma>3 where s3: "User_receive cap (Suc d) 1 ''Bob'' m \<sigma>2
        = send_each cap (Suc d) 1 (if m = [] then [] else [tl m]) \<sigma>3"
      "user_objs \<sigma>3 = user_objs \<sigma>2" "rooms \<sigma>3 = rooms \<sigma>2"
      "send_depths \<sigma>3 = send_depths \<sigma>2"
      by auto
    have "User_send cap d 2 m \<sigma>
        = (if m = [] then Returns \<sigma>3 else User_send cap (Suc d) 1 (tl m) \<sigma>3)"
      unfolding s1(1) s2(1)
      by (cases "User_send cap (Suc d) 1 (tl m) \<sigma>3")
        (simp_all add: s3(1) del: One_nat_def)
    with s1 s2 s3 u show ?thesis by auto
  qed
qed

lemma pingpong_chain:
  assumes "user_objs \<sigma> = user_objs pingpong_store" and "rooms \<sigma> = rooms pingpong_store"
    and "u = 1 \<or> u = 2" and "d + length m < cap"
  shows "\<exists>\<sigma>'. User_send cap d u m \<sigma> = Returns \<sigma>'
           \<and> user_objs \<sigma>' = user_objs \<sigma> \<and> rooms \<sigma>' = rooms \<sigma>
           \<and> send_depths \<sigma>' = send_depths \<sigma> @ [Suc d ..< d + length m + 2]"
  using assms
proof (induction m arbitrary: d u \<sigma>)
  case Nil
  from Nil.prems(4) have c: "\<not> cap < Suc d" by simp
  from pingpong_round [OF Nil.prems(1,2,3) c, of "[]"] show ?case
    by auto
next
  case (Cons x m)
  from Cons.prems(4) have c: "\<not> cap < Suc d" and len: "Suc d + length m < cap"
    by simp_all
  from pingpong_round [OF Cons.prems(1,2,3) c, of "x # m"] obtain \<sigma>3 where
    s3: "user_objs \<sigma>3 = user_objs \<sigma>" "rooms \<sigma>3 = rooms \<sigma>"
      "send_depths \<sigma>3 = send_depths \<sigma> @ [Suc d]"
      "User_send cap d u (x # m) \<sigma> = User_send cap (Suc d) (3 - u) m \<sigma>3"
    by auto
  have o: "3 - u = 1 \<or> 3 - u = 2"
    using Cons.prems(3) by auto
  from Cons.IH [OF _ _ o len, of \<sigma>3] s3(1,2) Cons.prems(1,2) obtain \<sigma>4 where
    s4: "User_send cap (Suc d) (3 - u) m \<sigma>3 = Returns \<sigma>4"
      "user_objs \<sigma>4 = user_objs \<sigma>3" "rooms \<sigma>4 = rooms \<sigma>3"
      "send_depths \<sigma>4 = send_depths \<sigma>3 @ [Suc (Suc d) ..< Suc d + length m + 2]"
    by auto
  have "Suc d < d + length (x # m) + 2"
    by simp
  from upt_conv_Cons [OF this]
  have upt: "[Suc d ..< d + length (x # m) + 2] = Suc d # [Suc (Suc d) ..< Suc d + length m + 2]"
    by simp
  from s3 s4 upt show ?case by simp
qed

lemma pingpong_overflow:
  assumes "user_objs \<sigma> = user_objs pingpong_store" and "rooms \<sigma> = rooms pingpong_store"
    and "u = 1 \<or> u = 2" and "cap \<le> d + length m"
  shows "thrown (User_send cap d u m \<sigma>) = Some RangeError"
  using assms
proof (induction m arbitrary: d u \<sigma>)
  case Nil
  from Nil.prems(4) have c: "cap < Suc d" by simp
  from Nil.prems(3) show ?case
    by (auto simp: c Nil.prems(1,2) pingpong_store_def Let_def
        User_send.simps ChatRoom_send.simps)
next
  case (Cons x m)
  show ?case
  proof (cases "cap < Suc d")
    case True
    from Cons.prems(3) show ?thesis
      by (auto simp: True Cons.prems(1,2) pingpong_store_def Let_def
          User_send.simps ChatRoom_send.simps)
  next
    case False
    from Cons.prems(4) have len: "cap \<le> Suc d + length m" by simp
    from pingpong_round [OF Cons.prems(1,2,3) False, of "x # m"] obtain \<sigma>3 where
      s3: "user_objs \<sigma>3 = user_objs \<sigma>" "rooms \<sigma>3 = rooms \<sigma>"
        "User_send cap d u (x # m) \<sigma> = User_send cap (Suc d) (3 - u) m \<sigma>3"
      by auto
    have o: "3 - u = 1 \<or> 3 - u = 2"
      using Cons.prems(3) by auto
    from Cons.IH [OF _ _ o len, of \<sigma>3] s3(1,2) Cons.prems(1,2)
    have "thrown (User_send cap (Suc d) (3 - u) m \<sigma>3) = Some RangeError"
      by simp
    with s3(3) show ?thesis by simp
  qed
qed

lemma ConcreteMediator_notify_lines:
  "ConcreteMediator_notify ev out =
     out @ (if ev = ''A''
            then [(INFO, ''Mediator reacts to A and triggers following operations:''),
                  (INFO, ''Component 2 does C.'')]
            else if ev = ''D''
            then [(INFO, ''Mediator reacts to D and triggers following operations:''),
                  (INFO, ''Component 1 does B.''),
                  (INFO, ''Component 2 does C.'')]
            else [])"
  by (simp add: ConcreteMediator_notify_def Component1_doB_def Component2_doC_def log_def)

text \<open>
  C9, as stated, fails: two different users named Alice register with the same room,
  first object 1, then object 2. Afterwards the room still maps Alice to object 1, and
  object 2 has not even been given the room.
\<close>

theorem second_registration_is_ignored:
  "rooms (final (ChatRoom_register 0 2 (final (ChatRoom_register 0 1 two_alices_store)))) 0
     = Some [(''Alice'', 1)]
   \<and> map_option chatRoom
       (user_objs (final (ChatRoom_register 0 2 (final (ChatRoom_register 0 1 two_alices_store)))) 2)
     = Some None"
  by (simp add: ChatRoom_register_def two_alices_store_def log_def)

text \<open>
  C9, amended. \<^verbatim>\<open>register\<close> enters only a name the room does not have yet:
  \<^item> registering a user whose name is already registered changes nothing at all (no
    entry, no \<^verbatim>\<open>setChatRoom\<close>, no log line);
  \<^item> registering a user under a new name appends the entry, sets the user's chat room
    and logs the join;
  \<^item> so after a first registration, a second registration under the same name, by the
    same or by another user object, leaves the store as the first one left it, and the
    name stays bound to the user registered first.
\<close>

theorem register_keeps_first_binding:
  "(user_objs \<sigma> u = Some uo \<and> rooms \<sigma> room = Some us \<and> user_name uo \<in> set (map fst us)
      \<longrightarrow> ChatRoom_register room u \<sigma> = Returns \<sigma>)
   \<and> (user_objs \<sigma> u = Some uo \<and> rooms \<sigma> room = Some us \<and> user_name uo \<notin> set (map fst us)
      \<longrightarrow> ChatRoom_register room u \<sigma> =
            Returns (\<sigma>\<lparr> rooms := (rooms \<sigma>)(room \<mapsto> us @ [(user_name uo, u)]),
                         user_objs := (user_objs \<sigma>)(u \<mapsto> uo\<lparr>chatRoom := Some room\<rparr>),
                         chat_console :=
                           chat_console \<sigma> @ [(INFO, ''ChatRoom: '' @ user_name uo
                              @ '' joined the chat room.'')] \<rparr>))
   \<and> (user_objs \<sigma> u1 = Some o1 \<and> user_objs \<sigma> u2 = Some o2 \<and> user_name o2 = user_name o1
        \<and> rooms \<sigma> room = Some us
      \<longrightarrow> ChatRoom_register room u2 (final (ChatRoom_register room u1 \<sigma>))
            = Returns (final (ChatRoom_register room u1 \<sigma>)))
   \<and> (user_objs \<sigma> u1 = Some o1 \<and> user_objs \<sigma> u2 = Some o2 \<and> user_name o2 = user_name o1
        \<and> rooms \<sigma> room = Some us \<and> user_name o1 \<notin> set (map fst us)
      \<longrightarrow> map_option (\<lambda>entries. map_of entries (user_name o1))
            (rooms (final (ChatRoom_register room u2 (final (ChatRoom_register room u1 \<sigma>)))) room)
            = Some (Some u1))"
proof (intro conjI impI)
  assume "user_objs \<sigma> u = Some uo \<and> rooms \<sigma> room = Some us \<and> user_name uo \<in> set (map fst us)"
  then show "ChatRoom_register room u \<sigma> = Returns \<sigma>"
    by (simp add: ChatRoom_register_def)
next
  assume "user_objs \<sigma> u = Some uo \<and> rooms \<sigma> room = Some us
      \<and> user_name uo \<notin> set (map fst us)"
  then show "ChatRoom_register room u \<sigma> =
            Returns (\<sigma>\<lparr> rooms := (rooms \<sigma>)(room \<mapsto> us @ [(user_name uo, u)]),
                         user_objs := (user_objs \<sigma>)(u \<mapsto> uo\<lparr>chatRoom := Some room\<rparr>),
                         chat_console :=
                           chat_console \<sigma> @ [(INFO, ''ChatRoom: '' @ user_name uo
                              @ '' joined the chat room.'')] \<rparr>)"
    by (simp add: ChatRoom_register_def log_def)
next
  assume a: "user_objs \<sigma> u1 = Some o1 \<and> user_objs \<sigma> u2 = Some o2 \<and> user_name o2 = user_name o1
        \<and> rooms \<sigma> room = Some us"
  then show "ChatRoom_register room u2 (final (ChatRoom_register room u1 \<sigma>))
            = Returns (final (ChatRoom_register room u1 \<sigma>))"
    by (cases "user_name o1 \<in> set (map fst us)") (auto simp: ChatRoom_register_def)
next
  assume a: "user_objs \<sigma> u1 = Some o1 \<and> user_objs \<sigma> u2 = Some o2 \<and> user_name o2 = user_name o1
        \<and> rooms \<sigma> room = Some us \<and> user_name o1 \<notin> set (map fst us)"
  then have "map_of us (user_name o1) = None"
    by (simp add: map_of_eq_None_iff)
  with a show "map_option (\<lambda>entries. map_of entries (user_name o1))
            (rooms (final (ChatRoom_register room u2 (final (ChatRoom_register room u1 \<sigma>)))) room)
            = Some (Some u1)"
    by (auto simp: ChatRoom_register_def map_add_Some_iff)
qed

theorem register_keeps_first_binding_witness:
  "ChatRoom_register 0 1 two_alices_store
     = Returns (two_alices_store\<lparr>
         rooms := (rooms two_alices_store)(0 \<mapsto> [] @ [(''Alice'', 1)]),
         user_objs := (user_objs two_alices_store)
           (1 \<mapsto> \<lparr>user_name = ''Alice'', chatRoom = None, class_of_user = ChatUser\<rparr>
                  \<lparr>chatRoom := Some 0\<rparr>),
         chat_console := chat_console two_alices_store
           @ [(INFO, ''ChatRoom: '' @ ''Alice'' @ '' joined the chat room.'')]\<rparr>)
   \<and> ChatRoom_register 0 2 (final (ChatRoom_register 0 1 two_alices_store))
     = Returns (final (ChatRoom_register 0 1 two_alices_store))
   \<and> ChatRoom_register 0 1 (final (ChatRoom_register 0 1 two_alices_store))
     = Returns (final (ChatRoom_register 0 1 two_alices_store))
   \<and> map_option (\<lambda>entries. map_of entries ''Alice'')
       (rooms (final (ChatRoom_register 0 2 (final (ChatRoom_register 0 1 two_alices_store)))) 0)
     = Some (Some 1)"
  using
    register_keeps_first_binding
      [where \<sigma> = two_alices_store and room = 0 and u = 1 and us = "[]"
         and uo = "\<lparr>user_name = ''Alice'', chatRoom = None, class_of_user = ChatUser\<rparr>"
         and ?u1.0 = 1 and ?u2.0 = 2
         and ?o1.0 = "\<lparr>user_name = ''Alice'', chatRoom = None, class_of_user = ChatUser\<rparr>"
         and ?o2.0 = "\<lparr>user_name = ''Alice'', chatRoom = None, class_of_user = ChatUser\<rparr>"]
    register_keeps_first_binding
      [where \<sigma> = "final (ChatRoom_register 0 1 two_alices_store)" and room = 0 and u = 1
         and us = "[(''Alice'', 1)]"
         and uo = "\<lparr>user_name = ''Alice'', chatRoom = Some 0, class_of_user = ChatUser\<rparr>"]
  by (simp add: ChatRoom_register_def two_alices_store_def log_def)

text \<open>
  C8, as stated, fails: Alice sends a message of nine characters in the ping-pong room,
  on an engine whose stack holds a thousand nested sends. The calls of
  \<^verbatim>\<open>ChatRoom.send\<close> nest ten deep, beyond the limit of 8 that the claim names,
  and the outermost call returns normally. No \<^verbatim>\<open>RoutingCycleDetected\<close> is
  thrown.
\<close>

theorem chain_nested_ten_deep_returns:
  "thrown (User_send 1000 0 1 ''aaaaaaaaa'' pingpong_store) = None
   \<and> send_depths (final (User_send 1000 0 1 ''aaaaaaaaa'' pingpong_store))
     = [1, 2, 3, 4, 5, 6, 7, 8, 9, 10]"
  by code_simp

text \<open>
  C8, amended. The routers have no depth guard of their own. For users that, on
  \<^verbatim>\<open>receive\<close>, log, send further messages and may throw:
  \<^item> whatever a \<^verbatim>\<open>send\<close> of a user or of the chat room does, when it ends,
    returning or throwing, the log and the list of entered notifications have only
    grown and the registrations are as before: what earlier steps of the chain did
    stays in place;
  \<^item> an error that leaves it is a \<^verbatim>\<open>TypeError\<close> of an unset reference, the
    engine's \<^verbatim>\<open>RangeError\<close> for a full call stack, or an error thrown by a
    user's own \<^verbatim>\<open>receive\<close>; the router raises none of its own, no
    \<^verbatim>\<open>RoutingCycleDetected\<close>;
  \<^item> nesting is limited by the engine's stack only: in the ping-pong room a message
    of length \<open>n\<close> makes the notifications nest \<open>n + 1\<close> deep and the call returns
    normally when the stack holds more than \<open>n\<close> nested sends, and ends with the
    engine's \<^verbatim>\<open>RangeError\<close> when it does not;
  \<^item> \<^verbatim>\<open>ConcreteMediator.notify\<close> always returns; its reactions write their
    lines and do not notify the mediator again.
\<close>

theorem router_has_no_depth_guard:
  "only_grown \<sigma> (User_send cap d u m \<sigma>)
   \<and> no_error_of_the_router \<sigma> (User_send cap d u m \<sigma>)
   \<and> only_grown \<sigma> (ChatRoom_send cap d room m u \<sigma>)
   \<and> no_error_of_the_router \<sigma> (ChatRoom_send cap d room m u \<sigma>)
   \<and> (length msg < k \<longrightarrow>
        thrown (User_send k 0 1 msg pingpong_store) = None
        \<and> send_depths (final (User_send k 0 1 msg pingpong_store)) = [1 ..< length msg + 2])
   \<and> (k \<le> length msg \<longrightarrow>
        thrown (User_send k 0 1 msg pingpong_store) = Some RangeError)
   \<and> ConcreteMediator_notify ev out =
       out @ (if ev = ''A''
              then [(INFO, ''Mediator reacts to A and triggers following operations:''),
                    (INFO, ''Component 2 does C.'')]
              else if ev = ''D''
              then [(INFO, ''Mediator reacts to D and triggers following operations:''),
                    (INFO, ''Component 1 does B.''),
                    (INFO, ''Component 2 does C.'')]
              else [])"
proof (intro conjI impI)
  show "only_grown \<sigma> (User_send cap d u m \<sigma>)"
    and "no_error_of_the_router \<sigma> (User_send cap d u m \<sigma>)"
    using chat_calls_ok(5) [of \<sigma> cap d u m] by (simp_all add: chain_ok_def)
  show "only_grown \<sigma> (ChatRoom_send cap d room m u \<sigma>)"
    and "no_error_of_the_router \<sigma> (ChatRoom_send cap d room m u \<sigma>)"
    using chat_calls_ok(1) [of \<sigma> cap d room m u] by (simp_all add: chain_ok_def)
next
  assume "length msg < k"
  then have "0 + length msg < k" by simp
  from pingpong_chain [OF refl refl _ this, of 1] obtain \<sigma>' where
    r: "User_send k 0 1 msg pingpong_store = Returns \<sigma>'"
      "send_depths \<sigma>' = send_depths pingpong_store @ [Suc 0 ..< 0 + length msg + 2]"
    by auto
  show "thrown (User_send k 0 1 msg pingpong_store) = None"
    using r(1) by simp
  show "send_depths (final (User_send k 0 1 msg pingpong_store)) = [1 ..< length msg + 2]"
    using r by (simp add: pingpong_store_def)
next
  assume "k \<le> length msg"
  then have "k \<le> 0 + length msg" by simp
  from pingpong_overflow [OF refl refl _ this, of 1]
  show "thrown (User_send k 0 1 msg pingpong_store) = Some RangeError"
    by simp
next
  show "ConcreteMediator_notify ev out =
       out @ (if ev = ''A''
              then [(INFO, ''Mediator reacts to A and triggers following operations:''),
                    (INFO, ''Component 2 does C.'')]
              else if ev = ''D''
              then [(INFO, ''Mediator reacts to D and triggers following operations:''),
                    (INFO, ''Component 1 does B.''),
                    (INFO, ''Component 2 does C.'')]
              else [])"
    by (rule ConcreteMediator_notify_lines)
qed

theorem router_has_no_depth_guard_witness:
  "length ''aaaaaaaaaaa'' < (1000::nat)
   \<and> thrown (User_send 1000 0 1 ''aaaaaaaaaaa'' pingpong_store) = None
   \<and> send_depths (final (User_send 1000 0 1 ''aaaaaaaaaaa'' pingpong_store))
     = [1, 2, 3, 4, 5, 6, 7, 8, 9, 10, 11, 12]
   \<and> (3::nat) \<le> length ''aaaaaaaaa''
   \<and> thrown (User_send 3 0 1 ''aaaaaaaaa'' pingpong_store) = Some RangeError
   \<and> only_grown pingpong_store (User_send 3 0 1 ''aaaaaaaaa'' pingpong_store)"
proof -
  have l1: "length ''aaaaaaaaaaa'' < (1000::nat)" and l2: "(3::nat) \<le> length ''aaaaaaaaa''"
    by simp_all
  note w1 = router_has_no_depth_guard [where msg = "''aaaaaaaaaaa''" and k = 1000]
  note w2 = router_has_no_depth_guard
    [where msg = "''aaaaaaaaa''" and k = 3 and \<sigma> = pingpong_store and cap = 3 and d = 0
       and u = 1 and m = "''aaaaaaaaa''"]
  from w1 l1 have a: "thrown (User_send 1000 0 1 ''aaaaaaaaaaa'' pingpong_store) = None"
    and b: "send_depths (final (User_send 1000 0 1 ''aaaaaaaaaaa'' pingpong_store))
      = [1 ..< length ''aaaaaaaaaaa'' + 2]"
    by blast+
  have "[1 ..< length ''aaaaaaaaaaa'' + 2] = [1, 2, 3, 4, 5, 6, 7, 8, 9, 10, 11, (12::nat)]"
    by code_simp
  with b have b': "send_depths (final (User_send 1000 0 1 ''aaaaaaaaaaa'' pingpong_store))
      = [1, 2, 3, 4, 5, 6, 7, 8, 9, 10, 11, 12]"
    by simp
  from w2 l2 have c: "thrown (User_send 3 0 1 ''aaaaaaaaa'' pingpong_store) = Some RangeError"
    by blast
  from w2 have g: "only_grown pingpong_store (User_send 3 0 1 ''aaaaaaaaa'' pingpong_store)"
    by blast
  from l1 a b' l2 c g show ?thesis
    by blast
qed


end
